theory Spec2Isabelle
  imports Main "HOL-Library.AList" "HOL-Library.Sublist"
begin

section \<open>JavaScript string operations used by the routes\<close>

text \<open>
  A JavaScript string is a sequence of code units; it is modelled as a \<open>string\<close>, one
  \<open>char\<close> per code unit (the code units below 256). \<open>length\<close> is the \<open>.length\<close> of
  the source.
\<close>

definition clamp_index :: "string \<Rightarrow> int \<Rightarrow> nat" where
  "clamp_index s i = nat (min (max i 0) (int (length s)))"

text \<open>\<open>String.prototype.substring(start, end)\<close>: both arguments are clamped to
  \<open>[0, length]\<close> and swapped when \<open>start > end\<close>.\<close>

definition substring :: "string \<Rightarrow> int \<Rightarrow> int \<Rightarrow> string" where
  "substring s start end =
     (let a = clamp_index s start; b = clamp_index s end;
          from = min a b; to = max a b
      in take (to - from) (drop from s))"

text \<open>\<open>String.prototype.lastIndexOf(searchString)\<close>: the greatest index at which
  \<open>searchString\<close> occurs, \<open>-1\<close> when it does not occur.\<close>

definition occurs_at :: "string \<Rightarrow> string \<Rightarrow> nat \<Rightarrow> bool" where
  "occurs_at s pat i = (i + length pat \<le> length s \<and> take (length pat) (drop i s) = pat)"

definition lastIndexOf :: "string \<Rightarrow> string \<Rightarrow> int" where
  "lastIndexOf s pat =
     (case filter (occurs_at s pat) (rev [0..<Suc (length s)]) of
        [] \<Rightarrow> - 1
      | i # _ \<Rightarrow> int i)"


text \<open>\<open>GetSubstitution\<close> for a pattern without capture groups: in the replacement
  text \<open>$$\<close> stands for a dollar sign, \<open>$&\<close> for the matched text, \<open>$`\<close> for the
  part of the subject before the match and \<open>$'\<close> for the part after it; every other
  character, also a dollar sign followed by a digit, is copied.\<close>

fun get_substitution :: "string \<Rightarrow> string \<Rightarrow> string \<Rightarrow> string \<Rightarrow> string" where
  "get_substitution matched bef aft [] = []"
| "get_substitution matched bef aft [c] = [c]"
| "get_substitution matched bef aft (c # d # r) =
     (if c = CHR ''$'' then
        (if d = CHR ''$'' then CHR ''$'' # get_substitution matched bef aft r
         else if d = CHR ''&'' then matched @ get_substitution matched bef aft r
         else if d = CHR 0x60 then bef @ get_substitution matched bef aft r
         else if d = CHR 0x27 then aft @ get_substitution matched bef aft r
         else c # get_substitution matched bef aft (d # r))
      else c # get_substitution matched bef aft (d # r))"

text \<open>\<open>subject.replace(/pat/g, replacement)\<close> for a pattern \<open>pat\<close> of literal
  characters: one pass from the left over the subject, every match replaced by the
  expanded replacement, the scan resuming behind the match. \<open>bef\<close> is the part of the
  subject already passed.\<close>

fun replace_from :: "string \<Rightarrow> string \<Rightarrow> string \<Rightarrow> string \<Rightarrow> string" where
  "replace_from pat replacement bef [] = []"
| "replace_from pat replacement bef (c # cs) =
     (if pat \<noteq> [] \<and> take (length pat) (c # cs) = pat then
        get_substitution pat bef (drop (length pat) (c # cs)) replacement
          @ replace_from pat replacement (bef @ pat) (drop (length pat) (c # cs))
      else c # replace_from pat replacement (bef @ [c]) cs)"

definition replace_all :: "string \<Rightarrow> string \<Rightarrow> string \<Rightarrow> string" where
  "replace_all pat replacement s = replace_from pat replacement [] s"

text \<open>\<open>String.prototype.includes\<close>, used to state properties of results.\<close>

definition js_includes :: "string \<Rightarrow> string \<Rightarrow> bool" where
  "js_includes s pat = (\<exists>i \<in> set [0..<Suc (length s)]. occurs_at s pat i)"

subsection \<open>Regular expressions\<close>

text \<open>
  The regular expressions of the source use literals, character classes, \<open>.\<close>,
  alternation, \<open>?\<close> and \<open>+\<close>. \<open>RegExp.prototype.test\<close> is decided by derivatives:
  \<open>rx_search\<close> looks for a match starting anywhere (a pattern without anchors),
  \<open>rx_whole\<close> matches the whole subject (a pattern between \<open>^\<close> and \<open>$\<close>).
\<close>

datatype char_class = Exactly char | IgnoreCase char | Dot | NotSpaceNorAt

datatype rx = Never | Empty | Atom char_class | Seq rx rx | Alt rx rx | Star rx

definition ascii_lower :: "char \<Rightarrow> char" where
  "ascii_lower c =
     (case map_of (zip ''ABCDEFGHIJKLMNOPQRSTUVWXYZ'' ''abcdefghijklmnopqrstuvwxyz'') c of
        Some l \<Rightarrow> l
      | None \<Rightarrow> c)"

text \<open>\<open>\s\<close>: tab, line feed, vertical tab, form feed, carriage return, space and the
  no-break space; \<open>.\<close>: anything but a line terminator.\<close>

definition is_space :: "char \<Rightarrow> bool" where
  "is_space c =
     (c \<in> set [CHR 0x09, CHR 0x0A, CHR 0x0B, CHR 0x0C, CHR 0x0D, CHR 0x20, CHR 0xA0])"

definition is_line_terminator :: "char \<Rightarrow> bool" where
  "is_line_terminator c = (c = CHR 0x0A \<or> c = CHR 0x0D)"

fun in_class :: "char_class \<Rightarrow> char \<Rightarrow> bool" where
  "in_class (Exactly a) c = (c = a)"
| "in_class (IgnoreCase a) c = (ascii_lower c = ascii_lower a)"
| "in_class Dot c = (\<not> is_line_terminator c)"
| "in_class NotSpaceNorAt c = (\<not> is_space c \<and> c \<noteq> CHR ''@'')"

fun nullable :: "rx \<Rightarrow> bool" where
  "nullable Never = False"
| "nullable Empty = True"
| "nullable (Atom k) = False"
| "nullable (Seq a b) = (nullable a \<and> nullable b)"
| "nullable (Alt a b) = (nullable a \<or> nullable b)"
| "nullable (Star a) = True"

text \<open>Sequence and alternative, with the expression that matches nothing absorbed.\<close>

fun seq :: "rx \<Rightarrow> rx \<Rightarrow> rx" where
  "seq Never b = Never"
| "seq Empty b = b"
| "seq a b = Seq a b"

fun alt :: "rx \<Rightarrow> rx \<Rightarrow> rx" where
  "alt Never b = b"
| "alt a Never = a"
| "alt a b = Alt a b"

fun deriv :: "char \<Rightarrow> rx \<Rightarrow> rx" where
  "deriv c Never = Never"
| "deriv c Empty = Never"
| "deriv c (Atom k) = (if in_class k c then Empty else Never)"
| "deriv c (Seq a b) =
     (if nullable a then alt (seq (deriv c a) b) (deriv c b) else seq (deriv c a) b)"
| "deriv c (Alt a b) = alt (deriv c a) (deriv c b)"
| "deriv c (Star a) = seq (deriv c a) (Star a)"

fun rx_whole :: "rx \<Rightarrow> string \<Rightarrow> bool" where
  "rx_whole r [] = nullable r"
| "rx_whole r (c # cs) = rx_whole (deriv c r) cs"

fun rx_prefix :: "rx \<Rightarrow> string \<Rightarrow> bool" where
  "rx_prefix r [] = nullable r"
| "rx_prefix r (c # cs) = (nullable r \<or> rx_prefix (deriv c r) cs)"

fun rx_search :: "rx \<Rightarrow> string \<Rightarrow> bool" where
  "rx_search r [] = nullable r"
| "rx_search r (c # cs) = (rx_prefix r (c # cs) \<or> rx_search r cs)"

definition rx_dot :: rx where
  "rx_dot = Atom Dot"

definition rx_opt :: "rx \<Rightarrow> rx" where
  "rx_opt r = Alt r Empty"

definition rx_plus :: "rx \<Rightarrow> rx" where
  "rx_plus r = Seq r (Star r)"

text \<open>A literal word under the \<open>i\<close> flag: letters match in either case.\<close>

fun word_i :: "string \<Rightarrow> rx" where
  "word_i [] = Empty"
| "word_i (c # cs) = Seq (Atom (IgnoreCase c)) (word_i cs)"

fun alts :: "rx list \<Rightarrow> rx" where
  "alts [] = Never"
| "alts [r] = r"
| "alts (r # rs) = Alt r (alts rs)"

text \<open>\<open>s.split(/\s+/)\<close>: the pieces between maximal runs of white space; a subject
  that starts or ends with white space has an empty first or last piece.\<close>

fun split_spaces :: "string \<Rightarrow> string \<Rightarrow> bool \<Rightarrow> string list" where
  "split_spaces cur [] in_gap = [cur]"
| "split_spaces cur (c # cs) in_gap =
     (if is_space c then (if in_gap then split_spaces cur cs True
                          else cur # split_spaces [] cs True)
      else split_spaces (cur @ [c]) cs False)"


section \<open>The in-memory store (\<open>MemStorage\<close>)\<close>

text \<open>
  \<open>randomUUID()\<close> is a supply of pairwise distinct identifiers: the store carries the
  number of identifiers handed out so far, and the next identifier is that number.
  A JavaScript \<open>Map\<close> keeps its entries in insertion order and \<open>set\<close> on a present key
  replaces the value in place: an association list with \<open>AList.update\<close>. Time stamps
  (\<open>createdAt\<close>, \<open>sentAt\<close>) are left out.
\<close>

type_synonym uuid = nat

record contact =
  contact_id :: uuid
  name :: string
  email :: string
  isValid :: bool
  campaignId :: "uuid option"

record insert_contact =
  ins_name :: string
  ins_email :: string
  ins_campaignId :: "uuid option"
  ins_isValid :: "bool option"

record campaign =
  campaign_id :: uuid
  subject :: string
  message :: string
  totalContacts :: nat
  sentCount :: nat
  failedCount :: nat
  status :: string

record insert_campaign =
  ins_subject :: string
  ins_message :: string
  ins_totalContacts :: "nat option"
  ins_sentCount :: "nat option"
  ins_failedCount :: "nat option"
  ins_status :: "string option"

record email_result =
  result_id :: uuid
  result_campaignId :: uuid
  result_contactId :: uuid
  result_email :: string
  result_status :: string
  result_error :: "string option"

record insert_email_result =
  ins_result_campaignId :: uuid
  ins_result_contactId :: uuid
  ins_result_email :: string
  ins_result_status :: string
  ins_result_error :: "string option"

record ai_message =
  ai_message_id :: uuid
  messageType :: string
  promotionalIdea :: string
  generatedMessage :: string
  characterCount :: nat
  wordCount :: nat
  isCompliant :: bool

record insert_ai_message =
  ins_messageType :: string
  ins_promotionalIdea :: string
  ins_generatedMessage :: string
  ins_characterCount :: nat
  ins_wordCount :: nat
  ins_isCompliant :: "bool option"

record mem_storage =
  contacts :: "(uuid \<times> contact) list"
  campaigns :: "(uuid \<times> campaign) list"
  emailResults :: "(uuid \<times> email_result) list"
  aiMessages :: "(uuid \<times> ai_message) list"
  uuids_issued :: nat

datatype storage_error = ContactNotFound uuid | CampaignNotFound uuid

definition new_storage :: mem_storage where
  "new_storage = \<lparr>contacts = [], campaigns = [], emailResults = [], aiMessages = [],
     uuids_issued = 0\<rparr>"

definition randomUUID :: "mem_storage \<Rightarrow> uuid \<times> mem_storage" where
  "randomUUID st = (uuids_issued st, st\<lparr>uuids_issued := Suc (uuids_issued st)\<rparr>)"

definition createContact :: "mem_storage \<Rightarrow> insert_contact \<Rightarrow> contact \<times> mem_storage" where
  "createContact st ins =
     (let (i, st1) = randomUUID st;
          c = \<lparr>contact_id = i, name = ins_name ins, email = ins_email ins,
               isValid = (case ins_isValid ins of None \<Rightarrow> False | Some b \<Rightarrow> b),
               campaignId = ins_campaignId ins\<rparr>
      in (c, st1\<lparr>contacts := AList.update i c (contacts st1)\<rparr>))"

definition getContact :: "mem_storage \<Rightarrow> uuid \<Rightarrow> contact option" where
  "getContact st i = map_of (contacts st) i"

definition updateContact ::
  "mem_storage \<Rightarrow> uuid \<Rightarrow> (contact \<Rightarrow> contact) \<Rightarrow> storage_error + (contact \<times> mem_storage)" where
  "updateContact st i updates =
     (case map_of (contacts st) i of
        None \<Rightarrow> Inl (ContactNotFound i)
      | Some c \<Rightarrow>
          Inr (updates c, st\<lparr>contacts := AList.update i (updates c) (contacts st)\<rparr>))"

definition getContactsByCampaign :: "mem_storage \<Rightarrow> uuid \<Rightarrow> contact list" where
  "getContactsByCampaign st cid =
     filter (\<lambda>c. campaignId c = Some cid) (map snd (contacts st))"

fun createManyContacts ::
  "mem_storage \<Rightarrow> insert_contact list \<Rightarrow> contact list \<times> mem_storage" where
  "createManyContacts st [] = ([], st)"
| "createManyContacts st (ins # rest) =
     (let (c, st1) = createContact st ins;
          (cs, st2) = createManyContacts st1 rest
      in (c # cs, st2))"

text \<open>\<open>/^[^\s@]+@[^\s@]+\.[^\s@]+$/\<close>\<close>

definition emailRegex :: rx where
  "emailRegex =
     Seq (rx_plus (Atom NotSpaceNorAt))
       (Seq (Atom (Exactly CHR ''@''))
          (Seq (rx_plus (Atom NotSpaceNorAt))
             (Seq (Atom (Exactly CHR ''.'')) (rx_plus (Atom NotSpaceNorAt)))))"

definition validateContacts ::
  "mem_storage \<Rightarrow> contact list \<Rightarrow> contact list \<times> mem_storage" where
  "validateContacts st cs =
     (map (\<lambda>c. c\<lparr>isValid := rx_whole emailRegex (email c)\<rparr>) cs, st)"

definition createCampaign ::
  "mem_storage \<Rightarrow> insert_campaign \<Rightarrow> campaign \<times> mem_storage" where
  "createCampaign st ins =
     (let (i, st1) = randomUUID st;
          c = \<lparr>campaign_id = i, subject = ins_subject ins, message = ins_message ins,
               totalContacts = (case ins_totalContacts ins of None \<Rightarrow> 0 | Some n \<Rightarrow> n),
               sentCount = (case ins_sentCount ins of None \<Rightarrow> 0 | Some n \<Rightarrow> n),
               failedCount = (case ins_failedCount ins of None \<Rightarrow> 0 | Some n \<Rightarrow> n),
               status = (case ins_status ins of None \<Rightarrow> ''pending'' | Some t \<Rightarrow> t)\<rparr>
      in (c, st1\<lparr>campaigns := AList.update i c (campaigns st1)\<rparr>))"

definition getCampaign :: "mem_storage \<Rightarrow> uuid \<Rightarrow> campaign option" where
  "getCampaign st i = map_of (campaigns st) i"

definition updateCampaign ::
  "mem_storage \<Rightarrow> uuid \<Rightarrow> (campaign \<Rightarrow> campaign) \<Rightarrow> storage_error + (campaign \<times> mem_storage)" where
  "updateCampaign st i updates =
     (case map_of (campaigns st) i of
        None \<Rightarrow> Inl (CampaignNotFound i)
      | Some c \<Rightarrow>
          Inr (updates c, st\<lparr>campaigns := AList.update i (updates c) (campaigns st)\<rparr>))"

definition createEmailResult ::
  "mem_storage \<Rightarrow> insert_email_result \<Rightarrow> email_result \<times> mem_storage" where
  "createEmailResult st ins =
     (let (i, st1) = randomUUID st;
          r = \<lparr>result_id = i, result_campaignId = ins_result_campaignId ins,
               result_contactId = ins_result_contactId ins,
               result_email = ins_result_email ins,
               result_status = ins_result_status ins,
               result_error = ins_result_error ins\<rparr>
      in (r, st1\<lparr>emailResults := AList.update i r (emailResults st1)\<rparr>))"

definition getEmailResultsByCampaign :: "mem_storage \<Rightarrow> uuid \<Rightarrow> email_result list" where
  "getEmailResultsByCampaign st cid =
     filter (\<lambda>r. result_campaignId r = cid) (map snd (emailResults st))"

definition createAiMessage ::
  "mem_storage \<Rightarrow> insert_ai_message \<Rightarrow> ai_message \<times> mem_storage" where
  "createAiMessage st ins =
     (let (i, st1) = randomUUID st;
          m = \<lparr>ai_message_id = i, messageType = ins_messageType ins,
               promotionalIdea = ins_promotionalIdea ins,
               generatedMessage = ins_generatedMessage ins,
               characterCount = ins_characterCount ins,
               wordCount = ins_wordCount ins,
               isCompliant = (case ins_isCompliant ins of None \<Rightarrow> False | Some b \<Rightarrow> b)\<rparr>
      in (m, st1\<lparr>aiMessages := AList.update i m (aiMessages st1)\<rparr>))"

definition getAiMessage :: "mem_storage \<Rightarrow> uuid \<Rightarrow> ai_message option" where
  "getAiMessage st i = map_of (aiMessages st) i"


section \<open>Routes on contacts and campaigns\<close>

subsection \<open>\<open>POST /api/upload-contacts\<close>\<close>

text \<open>
  The uploaded file as the route sees it: missing, not readable by the spreadsheet
  library (its exception ends in the route's \<open>catch\<close>), or parsed by
  \<open>sheet_to_json\<close> into one object per data row, the keys being the column headers of
  the cells that are filled. Cells are taken as text.
\<close>

type_synonym row = "(string \<times> string) list"

datatype uploaded_file = NoFile | Unreadable | Sheet "row list"

datatype upload_response =
    UploadError nat string
  | UploadOk "contact list" nat nat nat "uuid list"

definition has_key :: "string \<Rightarrow> row \<Rightarrow> bool" where
  "has_key k r = (k \<in> set (map fst r))"

text \<open>\<open>a || b\<close> on text that may be missing: \<open>a\<close> unless it is undefined or empty.\<close>

definition or_else :: "string option \<Rightarrow> string \<Rightarrow> string" where
  "or_else a b = (case a of None \<Rightarrow> b | Some t \<Rightarrow> if t = [] then b else t)"

definition parse_row :: "row \<Rightarrow> insert_contact" where
  "parse_row r =
     \<lparr>ins_name = or_else (map_of r ''Name'') (or_else (map_of r ''name'') []),
      ins_email = or_else (map_of r ''Email'') (or_else (map_of r ''email'') []),
      ins_campaignId = None,
      ins_isValid = Some False\<rparr>"

definition upload_contacts :: "mem_storage \<Rightarrow> uploaded_file \<Rightarrow> upload_response \<times> mem_storage" where
  "upload_contacts st file =
     (case file of
        NoFile \<Rightarrow> (UploadError 400 ''No file uploaded'', st)
      | Unreadable \<Rightarrow> (UploadError 500 ''Failed to process file'', st)
      | Sheet jsonData \<Rightarrow>
          (case jsonData of
             [] \<Rightarrow> (UploadError 400 ''File is empty'', st)
           | firstRow # _ \<Rightarrow>
               (let hasName = (has_key ''Name'' firstRow \<or> has_key ''name'' firstRow);
                    hasEmail = (has_key ''Email'' firstRow \<or> has_key ''email'' firstRow)
                in if \<not> hasName \<or> \<not> hasEmail then
                     (UploadError 400
                        ''Required columns missing. File must contain 'Name' and 'Email' columns.'',
                      st)
                   else
                     (let contactsToInsert = map parse_row jsonData;
                          (createdContacts, st1) = createManyContacts st contactsToInsert;
                          (validatedContacts, st2) = validateContacts st1 createdContacts;
                          validCount = length (filter isValid validatedContacts);
                          invalidCount = length validatedContacts - validCount
                      in (UploadOk (take 10 validatedContacts) (length validatedContacts)
                            validCount invalidCount (map contact_id validatedContacts),
                          st2)))))"

subsection \<open>\<open>POST /api/campaigns\<close>\<close>

datatype campaign_response = CampaignError nat string | CampaignOk campaign

text \<open>The loop over \<open>contactIds\<close>: \<open>updateContact\<close> throws on an unknown identifier,
  which ends the loop with the earlier contacts already attached.\<close>

fun attach_contacts :: "mem_storage \<Rightarrow> uuid list \<Rightarrow> uuid \<Rightarrow> storage_error option \<times> mem_storage" where
  "attach_contacts st [] cid = (None, st)"
| "attach_contacts st (contactId # rest) cid =
     (case updateContact st contactId (\<lambda>c. c\<lparr>campaignId := Some cid\<rparr>) of
        Inl e \<Rightarrow> (Some e, st)
      | Inr (_, st1) \<Rightarrow> attach_contacts st1 rest cid)"

definition create_campaign ::
  "mem_storage \<Rightarrow> string \<Rightarrow> string \<Rightarrow> uuid list \<Rightarrow> campaign_response \<times> mem_storage" where
  "create_campaign st subj msg contactIds =
     (let campaignData = \<lparr>ins_subject = subj, ins_message = msg,
                           ins_totalContacts = Some (length contactIds),
                           ins_sentCount = Some 0, ins_failedCount = Some 0,
                           ins_status = Some ''pending''\<rparr>;
          (c, st1) = createCampaign st campaignData
      in case attach_contacts st1 contactIds (campaign_id c) of
           (Some e, st2) \<Rightarrow> (CampaignError 500 ''Failed to create campaign'', st2)
         | (None, st2) \<Rightarrow> (CampaignOk c, st2))"

subsection \<open>\<open>POST /api/campaigns/:id/send\<close>\<close>

text \<open>
  The email provider is outside the program: \<open>sendTransacEmail\<close> either resolves or
  throws, an \<open>Error\<close> with its message or some other value. It is a function of the
  request and of the provider's own state \<open>'w\<close>, which it may change. \<open>brevoApi\<close> is
  \<open>None\<close> when the credential is not configured. The pause between two sends is left
  out.
\<close>

record email_request =
  to_email :: string
  to_name :: string
  mail_subject :: string
  htmlContent :: string
  textContent :: string

datatype send_outcome = Delivered | Thrown "string option"

type_synonym 'w brevo = "'w \<Rightarrow> email_request \<Rightarrow> send_outcome \<times> 'w"

datatype send_response = SendError nat string | SendOk nat nat nat

definition html_body :: "string \<Rightarrow> string" where
  \<open>html_body personalizedMessage =
     concat
      [[CHR 0x0A], replicate 14 CHR '' '',
       ''<div style="font-family: Arial, sans-serif; max-width: 600px; margin: 0 auto;">'',
       [CHR 0x0A], replicate 16 CHR '' '',
       replace_all [CHR 0x0A] ''<br>'' personalizedMessage,
       [CHR 0x0A], replicate 16 CHR '' '', ''<br><br>'',
       [CHR 0x0A], replicate 16 CHR '' '',
       ''<hr style="border: 1px solid #eee; margin: 20px 0;">'',
       [CHR 0x0A], replicate 16 CHR '' '',
       ''<p style="font-size: 12px; color: #666;">'',
       [CHR 0x0A], replicate 18 CHR '' '', ''Elite IIT Coaching Institute<br>'',
       [CHR 0x0A], replicate 18 CHR '' '', ''Yelahanka, Bangalore<br>'',
       [CHR 0x0A], replicate 18 CHR '' '',
       ''<a href="mailto:unsubscribe@eliteiit.com">Unsubscribe</a>'',
       [CHR 0x0A], replicate 16 CHR '' '', ''</p>'',
       [CHR 0x0A], replicate 14 CHR '' '', ''</div>'',
       [CHR 0x0A], replicate 12 CHR '' '']\<close>

definition personalize :: "string \<Rightarrow> string \<Rightarrow> string" where
  "personalize template recipient = replace_all ''{name}'' recipient template"

definition build_request :: "campaign \<Rightarrow> contact \<Rightarrow> email_request" where
  "build_request c ct =
     (let personalizedMessage = personalize (message c) (name ct);
          personalizedSubject = personalize (subject c) (name ct)
      in \<lparr>to_email = email ct, to_name = name ct, mail_subject = personalizedSubject,
          htmlContent = html_body personalizedMessage,
          textContent = personalizedMessage\<rparr>)"

text \<open>The loop over \<open>validContacts\<close>, with its two counters.\<close>

fun send_loop ::
  "'w brevo \<Rightarrow> campaign \<Rightarrow> uuid \<Rightarrow> contact list \<Rightarrow> nat \<Rightarrow> nat \<Rightarrow> mem_storage \<Rightarrow> 'w
     \<Rightarrow> nat \<times> nat \<times> mem_storage \<times> 'w" where
  "send_loop api c cid [] sent failed st w = (sent, failed, st, w)"
| "send_loop api c cid (ct # rest) sent failed st w =
     (case api w (build_request c ct) of
        (Delivered, w1) \<Rightarrow>
          (let (_, st1) = createEmailResult st
                 \<lparr>ins_result_campaignId = cid, ins_result_contactId = contact_id ct,
                  ins_result_email = email ct, ins_result_status = ''sent'',
                  ins_result_error = None\<rparr>
           in send_loop api c cid rest (Suc sent) failed st1 w1)
      | (Thrown err, w1) \<Rightarrow>
          (let (_, st1) = createEmailResult st
                 \<lparr>ins_result_campaignId = cid, ins_result_contactId = contact_id ct,
                  ins_result_email = email ct, ins_result_status = ''failed'',
                  ins_result_error =
                    Some (case err of Some m \<Rightarrow> m | None \<Rightarrow> ''Unknown error'')\<rparr>
           in send_loop api c cid rest sent (Suc failed) st1 w1))"

definition send_campaign ::
  "'w brevo option \<Rightarrow> mem_storage \<Rightarrow> 'w \<Rightarrow> uuid \<Rightarrow> send_response \<times> mem_storage \<times> 'w" where
  "send_campaign brevoApi st w cid =
     (case getCampaign st cid of
        None \<Rightarrow> (SendError 404 ''Campaign not found'', st, w)
      | Some c \<Rightarrow>
          (case updateCampaign st cid (\<lambda>x. x\<lparr>status := ''sending''\<rparr>) of
             Inl e \<Rightarrow> (SendError 500 ''Failed to send campaign'', st, w)
           | Inr (_, st1) \<Rightarrow>
               (let cs = getContactsByCampaign st1 cid;
                    validContacts = filter isValid cs
                in case brevoApi of
                     None \<Rightarrow>
                       (SendError 503
                          ''Email service not configured. Please add BREVO_API_KEY to environment variables.'',
                        st1, w)
                   | Some api \<Rightarrow>
                       (case send_loop api c cid validContacts 0 0 st1 w of
                          (sent, failed, st2, w2) \<Rightarrow>
                            (case updateCampaign st2 cid
                                    (\<lambda>x. x\<lparr>status := ''completed'', sentCount := sent,
                                            failedCount := failed\<rparr>) of
                               Inl e \<Rightarrow> (SendError 500 ''Failed to send campaign'', st2, w2)
                             | Inr (_, st3) \<Rightarrow>
                                 (SendOk sent failed (length validContacts), st3, w2))))))"

subsection \<open>\<open>GET /api/campaigns/:id/results\<close>\<close>

datatype results_response =
    ResultsError nat string
  | ResultsOk campaign "email_result list" nat nat nat "email_result list"

definition campaign_results :: "mem_storage \<Rightarrow> uuid \<Rightarrow> results_response" where
  "campaign_results st cid =
     (let results = getEmailResultsByCampaign st cid
      in case getCampaign st cid of
           None \<Rightarrow> ResultsError 404 ''Campaign not found''
         | Some c \<Rightarrow>
             ResultsOk c results (totalContacts c) (sentCount c) (failedCount c)
               (filter (\<lambda>r. result_status r = ''failed'') results))"


section \<open>\<open>POST /api/ai-message\<close>\<close>

text \<open>
  The completion provider is outside the program. Whatever makes the route end in its
  \<open>catch\<close> (the request fails, the answer is not \<open>ok\<close>, the body has no
  \<open>choices\<close>) is \<open>CompletionFailed\<close>; otherwise the reply carries
  \<open>choices[0]?.message?.content\<close>, which may be missing.
\<close>

datatype completion_reply = CompletionFailed | CompletionJson "string option"

record compliance =
  hasOptOut :: bool
  hasBusinessName :: bool
  hasCTA :: bool
  withinLimit :: bool
  hasLocation :: bool
  compliant :: bool

datatype ai_response = AiError nat string | AiOk ai_message compliance

definition enforce_limit :: "string \<Rightarrow> string \<Rightarrow> string" where
  "enforce_limit mtype generated =
     (let limit = (if mtype = ''sms'' then 160 else 1100 :: nat)
      in if length generated > limit then
           (let truncated = substring generated 0 (int limit);
                truncated = substring truncated 0
                              (min (int (length truncated)) (lastIndexOf truncated '' ''))
            in truncated @ ''...'')
         else generated)"

text \<open>\<open>/stop|opt.?out|unsubscribe/i\<close>, \<open>/elite.?iit/i\<close>,
  \<open>/call|contact|visit|reply|click|join/i\<close> and \<open>/yelahanka|bangalore/i\<close>\<close>

definition optOutRegex :: rx where
  "optOutRegex =
     alts [word_i ''stop'', Seq (word_i ''opt'') (Seq (rx_opt rx_dot) (word_i ''out'')),
           word_i ''unsubscribe'']"

definition businessNameRegex :: rx where
  "businessNameRegex = Seq (word_i ''elite'') (Seq (rx_opt rx_dot) (word_i ''iit''))"

definition ctaRegex :: rx where
  "ctaRegex =
     alts [word_i ''call'', word_i ''contact'', word_i ''visit'', word_i ''reply'',
           word_i ''click'', word_i ''join'']"

definition locationRegex :: rx where
  "locationRegex = alts [word_i ''yelahanka'', word_i ''bangalore'']"

definition count_words :: "string \<Rightarrow> nat" where
  "count_words s = length (filter (\<lambda>word. length word > 0) (split_spaces [] s False))"

definition check_compliance :: "string \<Rightarrow> string \<Rightarrow> compliance" where
  "check_compliance mtype finalMessage =
     (let characterCount = length finalMessage;
          hasOptOut = rx_search optOutRegex finalMessage;
          hasBusinessName = rx_search businessNameRegex finalMessage;
          hasCTA = rx_search ctaRegex finalMessage;
          withinLimit = (if mtype = ''sms'' then characterCount \<le> 160
                         else characterCount \<le> 250);
          hasLocation = rx_search locationRegex finalMessage;
          isCompliant = (hasOptOut \<and> hasBusinessName \<and> hasCTA \<and> withinLimit \<and> hasLocation)
      in \<lparr>hasOptOut = hasOptOut, hasBusinessName = hasBusinessName, hasCTA = hasCTA,
          withinLimit = withinLimit, hasLocation = hasLocation, compliant = isCompliant\<rparr>)"

definition ai_message_route ::
  "bool \<Rightarrow> mem_storage \<Rightarrow> string \<Rightarrow> string \<Rightarrow> completion_reply \<Rightarrow> ai_response \<times> mem_storage" where
  "ai_message_route openrouter_key st mtype idea reply =
     (if \<not> openrouter_key then
        (AiError 503
           ''AI service not configured. Please add OPENROUTER_API_KEY to environment variables.'',
         st)
      else case reply of
        CompletionFailed \<Rightarrow> (AiError 500 ''Failed to generate AI message'', st)
      | CompletionJson content \<Rightarrow>
          (let generated = or_else content [];
               finalMessage = enforce_limit mtype generated;
               cv = check_compliance mtype finalMessage;
               (aiMessage, st1) = createAiMessage st
                  \<lparr>ins_messageType = mtype, ins_promotionalIdea = idea,
                   ins_generatedMessage = finalMessage,
                   ins_characterCount = length finalMessage,
                   ins_wordCount = count_words finalMessage,
                   ins_isCompliant = Some (compliant cv)\<rparr>
           in (AiOk aiMessage cv, st1)))"

section \<open>The image task tracker\<close>

text \<open>
  \<open>imageTaskCache\<close> is a \<open>Map\<close> from task identifiers to task objects that the
  routes change in place. The task identifier made by \<open>generateTaskId\<close> (clock and
  random digits) is an input of the start route. The two providers are outside the
  program: each poll is given the replies its requests would get. A reply is an
  exception (with the message of the \<open>Error\<close>, or \<open>None\<close> for any other thrown value),
  an answer that is not \<open>ok\<close>, or the fields the route reads from the JSON body. The
  calls made are returned, in order.
\<close>

record image_task =
  originalPrompt :: string
  enhancedPrompt :: "string option"
  freepikTaskId :: "string option"
  task_status :: string
  imageUrl :: "string option"
  task_error :: "string option"

type_synonym image_cache = "string \<rightharpoonup> image_task"

datatype prompt_reply =
    PromptThrows "string option"
  | PromptNotOk string string
  | PromptJson "string option"

datatype submit_reply =
    SubmitThrows "string option"
  | SubmitNotOk nat string
  | SubmitJson "string option" "string option" string

record status_data =
  data_status :: "string option"
  data_generated :: "string list"
  data_error_message :: "string option"
  data_error :: "string option"
  data_message :: "string option"
  top_message :: "string option"

datatype status_reply =
    StatusThrows "string option"
  | StatusNotOk nat "string option" string
  | StatusJson status_data

record provider_replies =
  on_enhance :: prompt_reply
  on_submit :: submit_reply
  on_status :: status_reply

datatype provider_call = EnhanceCall string | SubmitCall string | StatusCall string

datatype start_response = StartError nat string | StartOk string string string string

datatype status_response =
    ServiceError nat string
  | StatusError nat string string
  | Failed string
  | Completed string string
  | Generating string string
  | RateLimited string string
  | Current string "string option" "string option" string

fun show_nat :: "nat \<Rightarrow> string" where
  "show_nat n =
     (if n < 10 then [''0123456789'' ! n]
      else show_nat (n div 10) @ [''0123456789'' ! (n mod 10)])"

definition start_image ::
  "bool \<Rightarrow> bool \<Rightarrow> image_cache \<Rightarrow> string \<Rightarrow> string \<Rightarrow> start_response \<times> image_cache" where
  "start_image freepik_key openrouter_key cache taskId imageDescription =
     (if \<not> freepik_key then
        (StartError 503
           ''Image generation service not configured. Please add FREEPIK_API_KEY to environment variables.'',
         cache)
      else if \<not> openrouter_key then
        (StartError 503
           ''AI service not configured. Please add OPENROUTER_API_KEY to environment variables.'',
         cache)
      else if imageDescription = [] \<or> list_all is_space imageDescription then
        (StartError 400 ''Image description is required'', cache)
      else
        (StartOk taskId imageDescription [] ''CREATED'',
         cache(taskId \<mapsto> \<lparr>originalPrompt = imageDescription, enhancedPrompt = None,
                           freepikTaskId = None, task_status = ''CREATED'',
                           imageUrl = None, task_error = None\<rparr>)))"

text \<open>The \<open>try\<close> block of the lazy initialisation: the exception it ends with, if
  any, the task as changed so far, and the calls made.\<close>

definition initialize_task ::
  "image_task \<Rightarrow> prompt_reply \<Rightarrow> submit_reply
     \<Rightarrow> string option option \<times> image_task \<times> provider_call list" where
  "initialize_task task pr sr =
     (let calls1 = [EnhanceCall (originalPrompt task)]
      in case pr of
           PromptThrows e \<Rightarrow> (Some e, task, calls1)
         | PromptNotOk statusText errorText \<Rightarrow>
             (Some (Some (''Prompt enhancement failed: '' @ statusText @ '' - '' @ errorText)),
              task, calls1)
         | PromptJson content \<Rightarrow>
             (let enhanced = or_else content (originalPrompt task);
                  task1 = task\<lparr>enhancedPrompt := Some enhanced\<rparr>;
                  calls2 = calls1 @ [SubmitCall enhanced]
              in case sr of
                   SubmitThrows e \<Rightarrow> (Some e, task1, calls2)
                 | SubmitNotOk code errorText \<Rightarrow>
                     (Some (Some (''Freepik API error: '' @ show_nat code @ '' - '' @ errorText)),
                      task1, calls2)
                 | SubmitJson task_id taskStatus raw \<Rightarrow>
                     (if or_else task_id [] = [] then
                        (Some (Some (''No task ID received from Freepik API. Response: '' @ raw)),
                         task1, calls2)
                      else
                        (None,
                         task1\<lparr>freepikTaskId := task_id,
                               task_status := (if taskStatus = Some ''COMPLETED''
                                               then ''COMPLETED'' else ''PENDING'')\<rparr>,
                         calls2))))"

text \<open>The branch for a task that has a provider handle.\<close>

definition check_provider :: "image_task \<Rightarrow> status_reply \<Rightarrow> status_response \<times> image_task" where
  "check_provider task reply =
     (case reply of
        StatusThrows e \<Rightarrow>
          (StatusError 500 ''ERROR''
             (case e of Some m \<Rightarrow> m | None \<Rightarrow> ''Failed to check image status''), task)
      | StatusNotOk code retryAfter errorText \<Rightarrow>
          (if code = 429 then
             (RateLimited ''Rate limit exceeded. Please try again in a few moments.''
                (or_else retryAfter ''30''), task)
           else
             (StatusError 500 ''ERROR''
                (''Failed to check status: '' @ show_nat code @ '' - '' @ errorText), task))
      | StatusJson d \<Rightarrow>
          (if data_status d = Some ''COMPLETED'' then
             (case data_generated d of
                url # _ \<Rightarrow>
                  (Completed url (or_else (enhancedPrompt task) (originalPrompt task)),
                   task\<lparr>imageUrl := Some url, task_status := ''COMPLETED''\<rparr>)
              | [] \<Rightarrow>
                  (Failed ''Task completed but no images were generated'',
                   task\<lparr>task_status := ''FAILED'',
                        task_error := Some ''Task completed but no images were generated''\<rparr>))
           else if data_status d = Some ''FAILED'' then
             (let errorMessage =
                    or_else (data_error_message d)
                      (or_else (data_error d)
                         (or_else (data_message d)
                            (or_else (top_message d) ''Image generation failed'')))
              in (Failed errorMessage,
                  task\<lparr>task_status := ''FAILED'', task_error := Some errorMessage\<rparr>))
           else
             (let s = or_else (data_status d) ''PROCESSING''
              in (Generating s ''Image is being generated...'', task\<lparr>task_status := s\<rparr>))))"

definition image_status ::
  "bool \<Rightarrow> bool \<Rightarrow> image_cache \<Rightarrow> string \<Rightarrow> provider_replies
     \<Rightarrow> status_response \<times> image_cache \<times> provider_call list" where
  "image_status freepik_key openrouter_key cache taskId replies =
     (if \<not> freepik_key then
        (ServiceError 503 ''Image generation service not configured.'', cache, [])
      else if \<not> openrouter_key then
        (ServiceError 503 ''AI service not configured.'', cache, [])
      else if taskId = [] then (ServiceError 400 ''Task ID is required'', cache, [])
      else case cache taskId of
        None \<Rightarrow> (StatusError 404 ''ERROR'' ''Task not found. It may have expired.'', cache, [])
      | Some task0 \<Rightarrow>
          (let (thrown, task, calls) =
                 (if task_status task0 = ''CREATED'' then
                    initialize_task (task0\<lparr>task_status := ''INITIALIZING''\<rparr>)
                      (on_enhance replies) (on_submit replies)
                  else (None, task0, []))
           in case thrown of
                Some e \<Rightarrow>
                  (let msg = (case e of Some m \<Rightarrow> m | None \<Rightarrow> ''Initialization failed'')
                   in (Failed msg,
                       cache(taskId \<mapsto> task\<lparr>task_status := ''FAILED'', task_error := Some msg\<rparr>),
                       calls))
              | None \<Rightarrow>
                  (case freepikTaskId task of
                     Some handle \<Rightarrow>
                       (if handle = [] then
                          (Current (task_status task) (imageUrl task) (task_error task)
                             (if task_status task = ''INITIALIZING''
                              then ''Initializing image generation...'' else ''Processing...''),
                           cache(taskId \<mapsto> task), calls)
                        else
                          (let (response, task1) = check_provider task (on_status replies)
                           in (response, cache(taskId \<mapsto> task1), calls @ [StatusCall handle])))
                   | None \<Rightarrow>
                       (Current (task_status task) (imageUrl task) (task_error task)
                          (if task_status task = ''INITIALIZING''
                           then ''Initializing image generation...'' else ''Processing...''),
                        cache(taskId \<mapsto> task), calls))))"

text \<open>A caller polling the same task again and again.\<close>

fun poll_all ::
  "bool \<Rightarrow> bool \<Rightarrow> image_cache \<Rightarrow> string \<Rightarrow> provider_replies list
     \<Rightarrow> status_response list \<times> image_cache \<times> provider_call list" where
  "poll_all fk ok cache taskId [] = ([], cache, [])"
| "poll_all fk ok cache taskId (r # rs) =
     (let (resp, cache1, calls1) = image_status fk ok cache taskId r;
          (resps, cache2, calls2) = poll_all fk ok cache1 taskId rs
      in (resp # resps, cache2, calls1 @ calls2))"


section \<open>The server as a sequence of requests\<close>

text \<open>
  The routes that read or write the store, served one after the other. \<open>brevoApi\<close>
  and the completion credential are fixed when the process starts.
\<close>

datatype request =
    UploadContacts uploaded_file
  | CreateCampaign string string "uuid list"
  | SendCampaign uuid
  | GetResults uuid
  | AiMessage string string completion_reply

fun serve :: "'w brevo option \<Rightarrow> bool \<Rightarrow> mem_storage \<times> 'w \<Rightarrow> request \<Rightarrow> mem_storage \<times> 'w" where
  "serve brevoApi key (st, w) (UploadContacts file) = (snd (upload_contacts st file), w)"
| "serve brevoApi key (st, w) (CreateCampaign subj msg ids) =
     (snd (create_campaign st subj msg ids), w)"
| "serve brevoApi key (st, w) (SendCampaign cid) = snd (send_campaign brevoApi st w cid)"
| "serve brevoApi key (st, w) (GetResults cid) = (st, w)"
| "serve brevoApi key (st, w) (AiMessage mtype idea reply) =
     (snd (ai_message_route key st mtype idea reply), w)"

fun serve_all ::
  "'w brevo option \<Rightarrow> bool \<Rightarrow> mem_storage \<times> 'w \<Rightarrow> request list \<Rightarrow> mem_storage \<times> 'w" where
  "serve_all brevoApi key s [] = s"
| "serve_all brevoApi key s (r # rs) = serve_all brevoApi key (serve brevoApi key s r) rs"

section \<open>Notions used to state the properties\<close>

text \<open>Every key of the store was handed out by \<open>randomUUID\<close>.\<close>

definition store_wf :: "mem_storage \<Rightarrow> bool" where
  "store_wf st =
     (list_all (\<lambda>k. k < uuids_issued st) (map fst (contacts st)) \<and>
      list_all (\<lambda>k. k < uuids_issued st) (map fst (campaigns st)) \<and>
      list_all (\<lambda>k. k < uuids_issued st) (map fst (emailResults st)) \<and>
      list_all (\<lambda>k. k < uuids_issued st) (map fst (aiMessages st)))"

text \<open>What the provider answers to the sends of one dispatch, in order.\<close>

fun provider_outcomes :: "'w brevo \<Rightarrow> campaign \<Rightarrow> 'w \<Rightarrow> contact list \<Rightarrow> send_outcome list" where
  "provider_outcomes api c w [] = []"
| "provider_outcomes api c w (ct # rest) =
     (case api w (build_request c ct) of (out, w1) \<Rightarrow> out # provider_outcomes api c w1 rest)"

text \<open>The records that one dispatch adds to \<open>emailResults\<close>: one for each contact
  and outcome, under consecutive new identifiers.\<close>

fun result_entries ::
  "uuid \<Rightarrow> uuid \<Rightarrow> contact list \<Rightarrow> send_outcome list \<Rightarrow> (uuid \<times> email_result) list" where
  "result_entries n cid (ct # cts) (out # outs) =
     (n, \<lparr>result_id = n, result_campaignId = cid, result_contactId = contact_id ct,
          result_email = email ct,
          result_status = (case out of Delivered \<Rightarrow> ''sent'' | Thrown e \<Rightarrow> ''failed''),
          result_error =
            (case out of
               Delivered \<Rightarrow> None
             | Thrown e \<Rightarrow> Some (case e of Some m \<Rightarrow> m | None \<Rightarrow> ''Unknown error''))\<rparr>)
     # result_entries (Suc n) cid cts outs"
| "result_entries n cid cts outs = []"

definition count_delivered :: "send_outcome list \<Rightarrow> nat" where
  "count_delivered outs = length (filter (\<lambda>out. out = Delivered) outs)"

definition count_thrown :: "send_outcome list \<Rightarrow> nat" where
  "count_thrown outs = length (filter (\<lambda>out. out \<noteq> Delivered) outs)"

text \<open>A store with one campaign and four attached contacts, three of them stored as
  valid; a provider that refuses its second send, and one that refuses every send. The
  provider's state counts its calls.\<close>

definition example_campaign :: campaign where
  "example_campaign =
     \<lparr>campaign_id = 4, subject = ''Hi {name}'', message = ''Dear {name}'',
      totalContacts = 4, sentCount = 0, failedCount = 0, status = ''pending''\<rparr>"

definition example_store :: mem_storage where
  "example_store =
     \<lparr>contacts =
        [(0, \<lparr>contact_id = 0, name = ''Ann'', email = ''ann@example.com'',
              isValid = True, campaignId = Some 4\<rparr>),
         (1, \<lparr>contact_id = 1, name = ''Bob'', email = ''bob@example.com'',
              isValid = True, campaignId = Some 4\<rparr>),
         (2, \<lparr>contact_id = 2, name = ''Cy'', email = ''cy-at-example.com'',
              isValid = False, campaignId = Some 4\<rparr>),
         (3, \<lparr>contact_id = 3, name = ''Dee'', email = ''dee@example.com'',
              isValid = True, campaignId = Some 4\<rparr>)],
      campaigns = [(4, example_campaign)],
      emailResults = [], aiMessages = [], uuids_issued = 5\<rparr>"

definition second_send_fails :: "nat brevo" where
  "second_send_fails w rq =
     (if w = 1 then Thrown (Some ''mailbox unavailable'') else Delivered, Suc w)"

definition every_send_fails :: "nat brevo" where
  "every_send_fails w rq = (Thrown None, Suc w)"

text \<open>A store with two campaigns: four contacts are attached to campaign 6, three of
  them stored as valid; one contact is attached to campaign 7 and mailed already; one
  contact is attached to no campaign.\<close>

definition mixed_campaign :: campaign where
  "mixed_campaign =
     \<lparr>campaign_id = 6, subject = ''Hi {name}'', message = ''Dear {name}'',
      totalContacts = 4, sentCount = 0, failedCount = 0, status = ''pending''\<rparr>"

definition mixed_store :: mem_storage where
  "mixed_store =
     \<lparr>contacts =
        [(0, \<lparr>contact_id = 0, name = ''Ann'', email = ''ann@example.com'',
              isValid = True, campaignId = Some 6\<rparr>),
         (1, \<lparr>contact_id = 1, name = ''Eve'', email = ''eve@example.com'',
              isValid = True, campaignId = Some 7\<rparr>),
         (2, \<lparr>contact_id = 2, name = ''Bob'', email = ''bob@example.com'',
              isValid = True, campaignId = Some 6\<rparr>),
         (3, \<lparr>contact_id = 3, name = ''Cy'', email = ''cy-at-example.com'',
              isValid = False, campaignId = Some 6\<rparr>),
         (4, \<lparr>contact_id = 4, name = ''Fay'', email = ''fay@example.com'',
              isValid = True, campaignId = None\<rparr>),
         (5, \<lparr>contact_id = 5, name = ''Dee'', email = ''dee@example.com'',
              isValid = True, campaignId = Some 6\<rparr>)],
      campaigns =
        [(6, mixed_campaign),
         (7, \<lparr>campaign_id = 7, subject = ''News'', message = ''Hello {name}'',
              totalContacts = 1, sentCount = 1, failedCount = 0, status = ''completed''\<rparr>)],
      emailResults =
        [(8, \<lparr>result_id = 8, result_campaignId = 7, result_contactId = 1,
              result_email = ''eve@example.com'', result_status = ''sent'',
              result_error = None\<rparr>)],
      aiMessages = [], uuids_issued = 9\<rparr>"

text \<open>A sheet of three rows, the second with a malformed email; the store after its
  upload into a new store; the campaign created for the three contacts, and the store
  after that.\<close>

definition example_rows :: "row list" where
  "example_rows =
     [[(''Name'', ''Ann''), (''Email'', ''ann@example.com'')],
      [(''Name'', ''Bob''), (''Email'', ''bob-at-example.com'')],
      [(''name'', ''Cy''), (''email'', ''cy@example.org'')]]"

definition store_after_upload :: mem_storage where
  "store_after_upload =
     \<lparr>contacts =
        [(0, \<lparr>contact_id = 0, name = ''Ann'', email = ''ann@example.com'',
              isValid = False, campaignId = None\<rparr>),
         (1, \<lparr>contact_id = 1, name = ''Bob'', email = ''bob-at-example.com'',
              isValid = False, campaignId = None\<rparr>),
         (2, \<lparr>contact_id = 2, name = ''Cy'', email = ''cy@example.org'',
              isValid = False, campaignId = None\<rparr>)],
      campaigns = [], emailResults = [], aiMessages = [], uuids_issued = 3\<rparr>"

definition uploaded_campaign :: campaign where
  "uploaded_campaign =
     \<lparr>campaign_id = 3, subject = ''Hi {name}'', message = ''Dear {name}'',
      totalContacts = 3, sentCount = 0, failedCount = 0, status = ''pending''\<rparr>"

definition store_after_campaign :: mem_storage where
  "store_after_campaign =
     \<lparr>contacts =
        [(0, \<lparr>contact_id = 0, name = ''Ann'', email = ''ann@example.com'',
              isValid = False, campaignId = Some 3\<rparr>),
         (1, \<lparr>contact_id = 1, name = ''Bob'', email = ''bob-at-example.com'',
              isValid = False, campaignId = Some 3\<rparr>),
         (2, \<lparr>contact_id = 2, name = ''Cy'', email = ''cy@example.org'',
              isValid = False, campaignId = Some 3\<rparr>)],
      campaigns = [(3, uploaded_campaign)],
      emailResults = [], aiMessages = [], uuids_issued = 4\<rparr>"

text \<open>The pieces of a text between the occurrences of a pattern, found from the left
  (\<open>cur\<close> is the piece being read), and pieces put together with a separator.\<close>

fun split_on :: "string \<Rightarrow> string \<Rightarrow> string \<Rightarrow> string list" where
  "split_on pat cur [] = [cur]"
| "split_on pat cur (c # cs) =
     (if pat \<noteq> [] \<and> take (length pat) (c # cs) = pat
      then cur # split_on pat [] (drop (length pat) (c # cs))
      else split_on pat (cur @ [c]) cs)"

fun join_with :: "string \<Rightarrow> string list \<Rightarrow> string" where
  "join_with sep [] = []"
| "join_with sep [s] = s"
| "join_with sep (s # t # ss) = s @ sep @ join_with sep (t # ss)"

text \<open>The pieces of a template between its occurrences of the token \<open>{name}\<close>.\<close>

definition template_pieces :: "string \<Rightarrow> string list" where
  "template_pieces t = split_on ''{name}'' [] t"

text \<open>A name without the replacement patterns \<open>$$\<close>, \<open>$&\<close>, \<open>$`\<close> and \<open>$'\<close>.\<close>

definition no_replacement_pattern :: "string \<Rightarrow> bool" where
  "no_replacement_pattern n =
     (\<not> js_includes n ''$$'' \<and> \<not> js_includes n ''$&''
      \<and> \<not> js_includes n [CHR ''$'', CHR 0x60] \<and> \<not> js_includes n [CHR ''$'', CHR 0x27])"

text \<open>A name that cannot make up the token \<open>{name}\<close> with the text around it: it does
  not contain the token, does not end with a beginning of the token, does not start
  with an ending of the token, and is not a part of the word \<open>name\<close> (the empty text is
  such a part).\<close>

definition cannot_form_token :: "string \<Rightarrow> bool" where
  "cannot_form_token n =
     (\<not> js_includes n ''{name}''
      \<and> list_all (\<lambda>p. \<not> suffix p n) [''{'', ''{n'', ''{na'', ''{nam'', ''{name'']
      \<and> list_all (\<lambda>q. \<not> prefix q n) [''}'', ''e}'', ''me}'', ''ame}'', ''name}'']
      \<and> \<not> js_includes ''name'' n)"

definition all_invalid :: "mem_storage \<Rightarrow> bool" where
  "all_invalid st = list_all (\<lambda>c. \<not> isValid c) (map snd (contacts st))"

text \<open>The campaign \<open>cid\<close> is stored as \<open>c\<close> with status \<open>sending\<close>, and every campaign key
  was handed out by \<open>randomUUID\<close>.\<close>

definition stays_sending :: "uuid \<Rightarrow> campaign \<Rightarrow> mem_storage \<Rightarrow> bool" where
  "stays_sending cid c st =
     (list_all (\<lambda>k. k < uuids_issued st) (map fst (campaigns st))
      \<and> getCampaign st cid = Some (c\<lparr>status := ''sending''\<rparr>))"

definition terminal :: "string \<Rightarrow> bool" where
  "terminal s = (s = ''COMPLETED'' \<or> s = ''FAILED'')"


text \<open>The record that \<open>createContact\<close> stores under a new identifier.\<close>

definition mk_contact :: "uuid \<Rightarrow> insert_contact \<Rightarrow> contact" where
  "mk_contact i ins =
     \<lparr>contact_id = i, name = ins_name ins, email = ins_email ins,
      isValid = (case ins_isValid ins of None \<Rightarrow> False | Some b \<Rightarrow> b),
      campaignId = ins_campaignId ins\<rparr>"

text \<open>The test of the upload route on the first data row: a key spelled \<open>Name\<close> or
  \<open>name\<close>, and a key spelled \<open>Email\<close> or \<open>email\<close>.\<close>

definition required_columns :: "row \<Rightarrow> bool" where
  "required_columns r =
     ((has_key ''Name'' r \<or> has_key ''name'' r) \<and> (has_key ''Email'' r \<or> has_key ''email'' r))"

text \<open>The schema error as the specification words it: neither a name column nor an
  email column is present, a column being present when a header equals the name up to
  the case of its letters.\<close>

definition spec_column_present :: "string \<Rightarrow> row \<Rightarrow> bool" where
  "spec_column_present col r =
     list_ex (\<lambda>k. map ascii_lower k = map ascii_lower col) (map fst r)"

definition spec_schema_error :: "row list \<Rightarrow> bool" where
  "spec_schema_error rows =
     (case rows of
        [] \<Rightarrow> False
      | r # _ \<Rightarrow> \<not> spec_column_present ''name'' r \<and> \<not> spec_column_present ''email'' r)"

section \<open>Contact import\<close>

lemma createContact_eq:
  "createContact st ins =
     (mk_contact (uuids_issued st) ins,
      st\<lparr>uuids_issued := Suc (uuids_issued st),
         contacts := AList.update (uuids_issued st) (mk_contact (uuids_issued st) ins) (contacts st)\<rparr>)"
  by (simp add: createContact_def randomUUID_def mk_contact_def Let_def)

lemma createManyContacts_frame:
  "createManyContacts st inss = (cs, st') \<Longrightarrow>
     uuids_issued st' = uuids_issued st + length inss \<and>
     campaigns st' = campaigns st \<and> emailResults st' = emailResults st \<and>
     aiMessages st' = aiMessages st \<and>
     (\<forall>k < uuids_issued st. map_of (contacts st') k = map_of (contacts st) k)"
proof (induction inss arbitrary: st cs st')
  case Nil
  then show ?case by simp
next
  case (Cons ins rest)
  let ?n = "uuids_issued st"
  let ?st1 = "st\<lparr>uuids_issued := Suc ?n,
         contacts := AList.update ?n (mk_contact ?n ins) (contacts st)\<rparr>"
  obtain cs2 st2 where r: "createManyContacts ?st1 rest = (cs2, st2)"
    by (cases "createManyContacts ?st1 rest")
  from Cons.prems r have e: "st' = st2" "cs = mk_contact ?n ins # cs2"
    by (auto simp: createContact_eq)
  from Cons.IH [OF r] show ?case using e by (auto simp: update_conv')
qed

lemma createManyContacts_created:
  "createManyContacts st inss = (cs, st') \<Longrightarrow>
     cs = map (\<lambda>(i, ins). mk_contact (uuids_issued st + i) ins) (zip [0..<length inss] inss) \<and>
     (\<forall>i < length inss. map_of (contacts st') (uuids_issued st + i)
                          = Some (mk_contact (uuids_issued st + i) (inss ! i)))"
proof (induction inss arbitrary: st cs st')
  case Nil
  then show ?case by simp
next
  case (Cons ins rest)
  let ?n = "uuids_issued st"
  let ?st1 = "st\<lparr>uuids_issued := Suc ?n,
         contacts := AList.update ?n (mk_contact ?n ins) (contacts st)\<rparr>"
  obtain cs2 st2 where r: "createManyContacts ?st1 rest = (cs2, st2)"
    by (cases "createManyContacts ?st1 rest")
  from Cons.prems r have e: "st' = st2" "cs = mk_contact ?n ins # cs2"
    by (auto simp: createContact_eq)
  have ih: "cs2 = map (\<lambda>(i, ins). mk_contact (Suc ?n + i) ins) (zip [0..<length rest] rest)"
    "\<forall>i < length rest. map_of (contacts st2) (Suc ?n + i) = Some (mk_contact (Suc ?n + i) (rest ! i))"
    using Cons.IH [OF r] by simp_all
  have fr: "map_of (contacts st2) ?n = Some (mk_contact ?n ins)"
    using createManyContacts_frame [OF r] by (simp add: update_conv')
  have a: "cs = map (\<lambda>(i, ins). mk_contact (?n + i) ins) (zip [0..<length (ins # rest)] (ins # rest))"
  proof -
    have "[0..<length (ins # rest)] = 0 # map Suc [0..<length rest]"
      by (simp add: upt_conv_Cons map_Suc_upt del: upt_Suc)
    then show ?thesis using e ih(1) by (simp add: zip_map1 case_prod_unfold del: upt_Suc)
  qed
  have b: "\<forall>i < length (ins # rest). map_of (contacts st') (?n + i)
                          = Some (mk_contact (?n + i) ((ins # rest) ! i))"
  proof (intro allI impI)
    fix i assume "i < length (ins # rest)"
    then show "map_of (contacts st') (?n + i) = Some (mk_contact (?n + i) ((ins # rest) ! i))"
      using fr ih(2) e by (cases i) auto
  qed
  show ?case using a b by blast
qed

lemma created_ids:
  "map contact_id (map (\<lambda>(i, ins). mk_contact (n + i) ins) (zip [0..<length inss] inss))
     = [n..<n + length inss]"
  by (rule nth_equalityI) (simp_all add: mk_contact_def)

lemma upload_success:
  assumes "rows = r # rest" and "required_columns r"
  shows "\<exists>validated st'.
           upload_contacts st (Sheet rows)
             = (UploadOk (take 10 validated) (length rows)
                  (length (filter isValid validated))
                  (length rows - length (filter isValid validated))
                  [uuids_issued st..<uuids_issued st + length rows], st')
         \<and> validated
             = map (\<lambda>(i, row). (mk_contact (uuids_issued st + i) (parse_row row))
                       \<lparr>isValid := rx_whole emailRegex (ins_email (parse_row row))\<rparr>)
                 (zip [0..<length rows] rows)
         \<and> (\<forall>i < length rows.
               getContact st' (uuids_issued st + i)
                 = Some (mk_contact (uuids_issued st + i) (parse_row (rows ! i))))
         \<and> campaigns st' = campaigns st \<and> emailResults st' = emailResults st
         \<and> aiMessages st' = aiMessages st
         \<and> uuids_issued st' = uuids_issued st + length rows
         \<and> st' = snd (createManyContacts st (map parse_row rows))"
proof -
  let ?n = "uuids_issued st"
  obtain cs st1 where c: "createManyContacts st (map parse_row rows) = (cs, st1)"
    by (cases "createManyContacts st (map parse_row rows)")
  have cr: "cs = map (\<lambda>(i, ins). mk_contact (?n + i) ins) (zip [0..<length rows] (map parse_row rows))"
    "\<forall>i < length rows. map_of (contacts st1) (?n + i) = Some (mk_contact (?n + i) (parse_row (rows ! i)))"
    using createManyContacts_created [OF c] by simp_all
  let ?validated = "map (\<lambda>c. c\<lparr>isValid := rx_whole emailRegex (email c)\<rparr>) cs"
  have len: "length cs = length rows" using cr(1) by simp
  have ids: "map contact_id ?validated = [?n..<?n + length rows]"
    unfolding cr(1) by (rule nth_equalityI) (simp_all add: mk_contact_def)
  have run: "upload_contacts st (Sheet rows)
             = (UploadOk (take 10 ?validated) (length rows)
                  (length (filter isValid ?validated))
                  (length rows - length (filter isValid ?validated))
                  [?n..<?n + length rows], st1)"
    using assms c len ids
    by (simp add: upload_contacts_def required_columns_def validateContacts_def Let_def del: upt_Suc)
  have v: "?validated = map (\<lambda>(i, row). (mk_contact (?n + i) (parse_row row))
                       \<lparr>isValid := rx_whole emailRegex (ins_email (parse_row row))\<rparr>)
                 (zip [0..<length rows] rows)"
    unfolding cr(1) by (simp add: zip_map2 case_prod_unfold mk_contact_def)
  show ?thesis
    using run v cr(2) createManyContacts_frame [OF c] c
    by (auto simp: getContact_def)
qed


lemma update_fresh: "k \<notin> fst ` set al \<Longrightarrow> AList.update k v al = al @ [(k, v)]"
  by (induction al) auto

lemma createManyContacts_append:
  "list_all (\<lambda>k. k < uuids_issued st) (map fst (contacts st)) \<Longrightarrow>
   createManyContacts st inss = (cs, st') \<Longrightarrow>
     contacts st' = contacts st @ map (\<lambda>c. (contact_id c, c)) cs"
proof (induction inss arbitrary: st cs st')
  case Nil
  then show ?case by simp
next
  case (Cons ins rest)
  let ?n = "uuids_issued st"
  let ?st1 = "st\<lparr>uuids_issued := Suc ?n,
         contacts := AList.update ?n (mk_contact ?n ins) (contacts st)\<rparr>"
  obtain cs2 st2 where r: "createManyContacts ?st1 rest = (cs2, st2)"
    by (cases "createManyContacts ?st1 rest")
  from Cons.prems(2) r have e: "st' = st2" "cs = mk_contact ?n ins # cs2"
    by (auto simp: createContact_eq)
  have fresh: "?n \<notin> fst ` set (contacts st)"
    using Cons.prems(1) by (auto simp: list_all_iff)
  have up: "contacts ?st1 = contacts st @ [(?n, mk_contact ?n ins)]"
    using update_fresh [OF fresh] by simp
  have wf1: "list_all (\<lambda>k. k < uuids_issued ?st1) (map fst (contacts ?st1))"
    using Cons.prems(1) up by (auto simp: list_all_iff)
  show ?case using Cons.IH [OF wf1 r] e up by (simp add: mk_contact_def)
qed

text \<open>
  C3, as the claim states it, fails: a sheet with a \<open>Name\<close> column and no email column
  is refused although one of the two columns is present, and a sheet whose headers are
  \<open>NAME\<close> and \<open>EMAIL\<close> is refused although both columns are present up to case.
\<close>

theorem C3_counterexample:
  "fst (upload_contacts new_storage (Sheet [[(''Name'', ''Ann'')]]))
     = UploadError 400
         ''Required columns missing. File must contain 'Name' and 'Email' columns.''
   \<and> \<not> spec_schema_error [[(''Name'', ''Ann'')]]
   \<and> fst (upload_contacts new_storage
             (Sheet [[(''NAME'', ''Ann''), (''EMAIL'', ''ann@example.com'')]]))
     = UploadError 400
         ''Required columns missing. File must contain 'Name' and 'Email' columns.''
   \<and> \<not> spec_schema_error [[(''NAME'', ''Ann''), (''EMAIL'', ''ann@example.com'')]]"
  by code_simp

text \<open>
  C3, amended. The import of a parsed sheet fails with the format error exactly when
  the sheet has no data row; it fails with the schema error exactly when there is a
  first data row and that row lacks a key spelled \<open>Name\<close> or \<open>name\<close>, or lacks a key
  spelled \<open>Email\<close> or \<open>email\<close> (other spellings do not count); in every other case it
  succeeds, reports as many contacts as there are rows, returns one new identifier per
  row, all distinct, and each identifier is stored with the contact parsed from its
  row. On a store whose keys all came from \<open>randomUUID\<close> the new contacts are appended
  in row order.
\<close>

theorem C3_upload_outcome:
  "((fst (upload_contacts st (Sheet rows)) = UploadError 400 ''File is empty'') = (rows = []))
   \<and> ((fst (upload_contacts st (Sheet rows))
         = UploadError 400
             ''Required columns missing. File must contain 'Name' and 'Email' columns.'')
       = (\<exists>r rest. rows = r # rest \<and> \<not> required_columns r))
   \<and> ((\<exists>r rest. rows = r # rest \<and> required_columns r) \<longrightarrow>
        (\<exists>preview valid invalid ids st'.
           upload_contacts st (Sheet rows)
             = (UploadOk preview (length rows) valid invalid ids, st')
           \<and> length ids = length rows \<and> distinct ids \<and> valid + invalid = length rows
           \<and> (\<forall>i < length rows.
                 getContact st' (ids ! i) = Some (mk_contact (ids ! i) (parse_row (rows ! i))))
           \<and> (store_wf st \<longrightarrow>
                 contacts st'
                   = contacts st
                     @ map (\<lambda>(i, row). (i, mk_contact i (parse_row row))) (zip ids rows))))"
proof (intro conjI impI)
  show "(fst (upload_contacts st (Sheet rows)) = UploadError 400 ''File is empty'') = (rows = [])"
    by (cases rows)
       (auto simp: upload_contacts_def Let_def validateContacts_def split: prod.splits)
next
  show "(fst (upload_contacts st (Sheet rows))
         = UploadError 400
             ''Required columns missing. File must contain 'Name' and 'Email' columns.'')
       = (\<exists>r rest. rows = r # rest \<and> \<not> required_columns r)"
    by (cases rows)
       (auto simp: upload_contacts_def Let_def validateContacts_def required_columns_def
             split: prod.splits)
next
  assume "\<exists>r rest. rows = r # rest \<and> required_columns r"
  then obtain r rest where rr: "rows = r # rest" "required_columns r" by blast
  let ?n = "uuids_issued st"
  let ?ids = "[?n..<?n + length rows]"
  obtain validated st' where u:
    "upload_contacts st (Sheet rows)
             = (UploadOk (take 10 validated) (length rows)
                  (length (filter isValid validated))
                  (length rows - length (filter isValid validated)) ?ids, st')"
    "validated = map (\<lambda>(i, row). (mk_contact (?n + i) (parse_row row))
                       \<lparr>isValid := rx_whole emailRegex (ins_email (parse_row row))\<rparr>)
                 (zip [0..<length rows] rows)"
    "\<forall>i < length rows. getContact st' (?n + i)
                 = Some (mk_contact (?n + i) (parse_row (rows ! i)))"
    "st' = snd (createManyContacts st (map parse_row rows))"
    using upload_success [OF rr, of st] by blast
  have lv: "length validated = length rows" using u(2) by simp
  have le: "length (filter isValid validated) \<le> length rows"
    using lv length_filter_le [of isValid validated] by simp
  have app: "contacts st' = contacts st
                     @ map (\<lambda>(i, row). (i, mk_contact i (parse_row row))) (zip ?ids rows)"
    if wf: "store_wf st"
  proof -
    obtain cs st1 where c: "createManyContacts st (map parse_row rows) = (cs, st1)"
      by (cases "createManyContacts st (map parse_row rows)")
    have w: "list_all (\<lambda>k. k < uuids_issued st) (map fst (contacts st))"
      using wf by (simp add: store_wf_def)
    have st1: "st' = st1" using u(4) c by simp
    have "cs = map (\<lambda>(i, ins). mk_contact (?n + i) ins) (zip [0..<length rows] (map parse_row rows))"
      using createManyContacts_created [OF c] by simp
    then have "map (\<lambda>c. (contact_id c, c)) cs
                 = map (\<lambda>(i, row). (i, mk_contact i (parse_row row))) (zip ?ids rows)"
      by (intro nth_equalityI) (simp_all add: mk_contact_def)
    then show ?thesis using createManyContacts_append [OF w c] st1 by simp
  qed
  show "\<exists>preview valid invalid ids st'.
           upload_contacts st (Sheet rows)
             = (UploadOk preview (length rows) valid invalid ids, st')
           \<and> length ids = length rows \<and> distinct ids \<and> valid + invalid = length rows
           \<and> (\<forall>i < length rows.
                 getContact st' (ids ! i) = Some (mk_contact (ids ! i) (parse_row (rows ! i))))
           \<and> (store_wf st \<longrightarrow>
                 contacts st'
                   = contacts st
                     @ map (\<lambda>(i, row). (i, mk_contact i (parse_row row))) (zip ids rows))"
    apply (rule exI [of _ "take 10 validated"])
    apply (rule exI [of _ "length (filter isValid validated)"])
    apply (rule exI [of _ "length rows - length (filter isValid validated)"])
    apply (rule exI [of _ ?ids])
    apply (rule exI [of _ st'])
    using u(1) u(3) le app by simp
qed


theorem C3_upload_outcome_witness:
  "(\<exists>r rest. [[(''Name'', ''Ann''), (''Email'', ''ann@example.com'')],
                [(''Name'', ''Bob''), (''Email'', ''bob-at-example.com'')]] = r # rest
              \<and> required_columns r)
   \<and> store_wf new_storage
   \<and> (\<exists>preview valid invalid ids st'.
         upload_contacts new_storage
           (Sheet [[(''Name'', ''Ann''), (''Email'', ''ann@example.com'')],
                   [(''Name'', ''Bob''), (''Email'', ''bob-at-example.com'')]])
           = (UploadOk preview 2 valid invalid ids, st')
         \<and> length ids = 2 \<and> distinct ids \<and> valid + invalid = 2
         \<and> getContact st' (ids ! 0)
             = Some \<lparr>contact_id = ids ! 0, name = ''Ann'', email = ''ann@example.com'',
                     isValid = False, campaignId = None\<rparr>
         \<and> getContact st' (ids ! 1)
             = Some \<lparr>contact_id = ids ! 1, name = ''Bob'', email = ''bob-at-example.com'',
                     isValid = False, campaignId = None\<rparr>
         \<and> map fst (contacts st') = ids)"
proof -
  let ?rows = "[[(''Name'', ''Ann''), (''Email'', ''ann@example.com'')],
                [(''Name'', ''Bob''), (''Email'', ''bob-at-example.com'')]]"
  have h: "\<exists>r rest. ?rows = r # rest \<and> required_columns r"
    by (simp add: required_columns_def has_key_def)
  have w: "store_wf new_storage" by (simp add: store_wf_def new_storage_def)
  obtain preview valid invalid ids st' where u:
    "upload_contacts new_storage (Sheet ?rows) = (UploadOk preview (length ?rows) valid invalid ids, st')"
    "length ids = length ?rows" "distinct ids" "valid + invalid = length ?rows"
    "\<forall>i < length ?rows. getContact st' (ids ! i) = Some (mk_contact (ids ! i) (parse_row (?rows ! i)))"
    "contacts st' = contacts new_storage
                     @ map (\<lambda>(i, row). (i, mk_contact i (parse_row row))) (zip ids ?rows)"
    using C3_upload_outcome [of new_storage ?rows] h w by blast
  have g0: "getContact st' (ids ! 0) = Some (mk_contact (ids ! 0) (parse_row (?rows ! 0)))"
    using u(5) by simp
  have g1: "getContact st' (ids ! 1) = Some (mk_contact (ids ! 1) (parse_row (?rows ! 1)))"
    using u(5) by simp
  have k: "map fst (contacts st') = ids"
    using u(6) u(2) by (simp add: new_storage_def case_prod_unfold comp_def)
  show ?thesis
    using h w u(1-4) g0 g1 k by (simp add: mk_contact_def parse_row_def or_else_def)
qed

section \<open>Campaign dispatch: the placeholder\<close>

text \<open>Occurrences of a pattern in a text.\<close>

lemma js_includes_iff: "js_includes s p = (\<exists>i. occurs_at s p i)"
proof -
  have "i \<in> set [0..<Suc (length s)]" if "occurs_at s p i" for i
    using that by (simp add: occurs_at_def del: upt_Suc)
  then show ?thesis unfolding js_includes_def by blast
qed

lemma occurs_at_0: "occurs_at s p 0 = (take (length p) s = p)"
proof
  assume "occurs_at s p 0" then show "take (length p) s = p" by (simp add: occurs_at_def)
next
  assume a: "take (length p) s = p"
  have "length (take (length p) s) = min (length p) (length s)" by simp
  with a have "length p \<le> length s" by (metis min.cobounded2 length_take)
  with a show "occurs_at s p 0" by (simp add: occurs_at_def)
qed

lemma js_includes_Nil: "p \<noteq> [] \<Longrightarrow> \<not> js_includes [] p"
  by (auto simp: js_includes_iff occurs_at_def)

lemma js_includes_Cons:
  "js_includes (c # cs) p = (take (length p) (c # cs) = p \<or> js_includes cs p)"
proof -
  have "(\<exists>i. occurs_at (c # cs) p i) = (occurs_at (c # cs) p 0 \<or> (\<exists>j. occurs_at (c # cs) p (Suc j)))"
    by (metis not0_implies_Suc)
  moreover have "occurs_at (c # cs) p (Suc j) = occurs_at cs p j" for j
    by (simp add: occurs_at_def)
  ultimately show ?thesis by (simp add: js_includes_iff occurs_at_0)
qed

lemma js_includes_append_left: "js_includes s p \<Longrightarrow> js_includes (z @ s) p"
  by (induction z) (simp_all add: js_includes_Cons)

lemma occurs_at_bound: "p \<noteq> [] \<Longrightarrow> occurs_at s p i \<Longrightarrow> i < length s"
  by (cases p) (auto simp: occurs_at_def)

lemma occurs_at_append_left:
  "occurs_at cur p i \<Longrightarrow> occurs_at (cur @ s) p i"
  by (auto simp: occurs_at_def)

lemma occurs_at_after:
  "occurs_at (cur @ s) p (length cur) = (take (length p) s = p)"
  using occurs_at_0 [of s p] by (simp add: occurs_at_def)

text \<open>A replacement text without replacement patterns is inserted as it is.\<close>

lemma no_pattern_tail:
  "no_replacement_pattern (c # cs) \<Longrightarrow> no_replacement_pattern cs"
  unfolding no_replacement_pattern_def using js_includes_Cons by blast

lemma no_pattern_head:
  "no_replacement_pattern (c # d # r) \<Longrightarrow> c = CHR ''$'' \<Longrightarrow>
     d \<noteq> CHR ''$'' \<and> d \<noteq> CHR ''&'' \<and> d \<noteq> CHR 0x60 \<and> d \<noteq> CHR 0x27"
  unfolding no_replacement_pattern_def
  by (auto simp: js_includes_Cons)

lemma get_substitution_literal:
  "no_replacement_pattern r \<Longrightarrow> get_substitution m b a r = r"
proof (induction m b a r rule: get_substitution.induct)
  case (3 m b a c d r)
  have t: "no_replacement_pattern (d # r)" using "3.prems" by (rule no_pattern_tail)
  show ?case
  proof (cases "c = CHR ''$''")
    case True
    then show ?thesis using no_pattern_head [OF "3.prems" True] "3.IH"(5) t by simp
  next
    case False
    then show ?thesis using "3.IH"(6) t by simp
  qed
qed simp_all

lemma replace_from_match:
  "no_replacement_pattern n \<Longrightarrow> pat \<noteq> [] \<and> take (length pat) (c # cs) = pat \<Longrightarrow>
   replace_from pat n bef (c # cs)
     = n @ replace_from pat n (bef @ pat) (drop (length pat) (c # cs))"
  by (simp add: get_substitution_literal)

lemma replace_from_skip:
  "\<not> (pat \<noteq> [] \<and> take (length pat) (c # cs) = pat) \<Longrightarrow>
   replace_from pat n bef (c # cs) = c # replace_from pat n (bef @ [c]) cs"
  by auto

text \<open>The pieces between the occurrences of a pattern: joined with the pattern they
  give the text back, none of them contains the pattern, and joined with a replacement
  text without replacement patterns they give the result of \<open>replace\<close>.\<close>

lemma split_on_nonempty: "split_on pat cur s \<noteq> []"
  by (induction pat cur s rule: split_on.induct) auto

lemma join_with_Cons:
  "ss \<noteq> [] \<Longrightarrow> join_with sep (s # ss) = s @ sep @ join_with sep ss"
  by (cases ss) simp_all

lemma split_on_match:
  "pat \<noteq> [] \<and> take (length pat) (c # cs) = pat \<Longrightarrow>
   split_on pat cur (c # cs) = cur # split_on pat [] (drop (length pat) (c # cs))"
  by simp

lemma split_on_skip:
  "\<not> (pat \<noteq> [] \<and> take (length pat) (c # cs) = pat) \<Longrightarrow>
   split_on pat cur (c # cs) = split_on pat (cur @ [c]) cs"
  by auto

lemma join_split:
  "join_with pat (split_on pat cur s) = cur @ s"
proof (induction pat cur s rule: split_on.induct)
  case (1 pat cur)
  then show ?case by simp
next
  case (2 pat cur c cs)
  show ?case
  proof (cases "pat \<noteq> [] \<and> take (length pat) (c # cs) = pat")
    case True
    have "c # cs = take (length pat) (c # cs) @ drop (length pat) (c # cs)"
      by (simp only: append_take_drop_id)
    then have e: "c # cs = pat @ drop (length pat) (c # cs)" using True by simp
    have "join_with pat (split_on pat cur (c # cs))
          = cur @ pat @ join_with pat (split_on pat [] (drop (length pat) (c # cs)))"
      unfolding split_on_match [OF True] using split_on_nonempty by (rule join_with_Cons)
    also have "\<dots> = cur @ pat @ drop (length pat) (c # cs)" using 2(1) [OF True] by simp
    also have "\<dots> = cur @ c # cs" using e by simp
    finally show ?thesis .
  next
    case False
    show ?thesis unfolding split_on_skip [OF False] using 2(2) [OF False] by simp
  qed
qed

lemma replace_is_join:
  "no_replacement_pattern n \<Longrightarrow>
   cur @ replace_from pat n bef s = join_with n (split_on pat cur s)"
proof (induction pat cur s arbitrary: bef rule: split_on.induct)
  case (1 pat cur)
  then show ?case by simp
next
  case (2 pat cur c cs)
  show ?case
  proof (cases "pat \<noteq> [] \<and> take (length pat) (c # cs) = pat")
    case True
    have "join_with n (split_on pat cur (c # cs))
          = cur @ n @ join_with n (split_on pat [] (drop (length pat) (c # cs)))"
      unfolding split_on_match [OF True] using split_on_nonempty by (rule join_with_Cons)
    also have "\<dots> = cur @ n @ replace_from pat n (bef @ pat) (drop (length pat) (c # cs))"
      using 2(1) [OF True "2.prems", of "bef @ pat"] by simp
    finally show ?thesis unfolding replace_from_match [OF "2.prems" True] by simp
  next
    case False
    show ?thesis
      unfolding split_on_skip [OF False] replace_from_skip [OF False]
      using 2(2) [OF False "2.prems", of "bef @ [c]"] by simp
  qed
qed

lemma pieces_token_free:
  "pat \<noteq> [] \<Longrightarrow> \<forall>i < length cur. \<not> occurs_at (cur @ s) pat i \<Longrightarrow>
         list_all (\<lambda>piece. \<not> js_includes piece pat) (split_on pat cur s)"
proof (induction pat cur s rule: split_on.induct)
  case (1 pat cur)
  have "\<not> js_includes cur pat"
  proof
    assume "js_includes cur pat"
    then obtain i where i: "occurs_at cur pat i" by (auto simp: js_includes_iff)
    then have "i < length cur" using occurs_at_bound [OF "1.prems"(1)] by blast
    with "1.prems"(2) i show False by simp
  qed
  then show ?case by simp
next
  case (2 pat cur c cs)
  show ?case
  proof (cases "pat \<noteq> [] \<and> take (length pat) (c # cs) = pat")
    case True
    have "\<not> js_includes cur pat"
    proof
      assume "js_includes cur pat"
      then obtain i where i: "occurs_at cur pat i" by (auto simp: js_includes_iff)
      then have "i < length cur" using occurs_at_bound [OF "2.prems"(1)] by blast
      with "2.prems"(2) occurs_at_append_left [OF i] show False by blast
    qed
    moreover have "list_all (\<lambda>piece. \<not> js_includes piece pat)
                     (split_on pat [] (drop (length pat) (c # cs)))"
      using 2(1) [OF True "2.prems"(1)] by simp
    ultimately show ?thesis unfolding split_on_match [OF True] by simp
  next
    case False
    have "\<forall>i < length (cur @ [c]). \<not> occurs_at ((cur @ [c]) @ cs) pat i"
    proof (intro allI impI)
      fix i assume "i < length (cur @ [c])"
      then consider "i < length cur" | "i = length cur" by fastforce
      then show "\<not> occurs_at ((cur @ [c]) @ cs) pat i"
      proof cases
        case 1
        then show ?thesis using "2.prems"(2) by simp
      next
        case 2
        have "take (length pat) (c # cs) \<noteq> pat" using False "2.prems"(1) by simp
        then show ?thesis using occurs_at_after [of cur "c # cs" pat] 2 by simp
      qed
    qed
    then show ?thesis unfolding split_on_skip [OF False] using 2(2) [OF False "2.prems"(1)] by blast
  qed
qed

text \<open>A name that cannot make up the token with the text around it leaves no token
  in the result.\<close>

lemma token_prefixes:
  "prefixes ''{name}'' = [[], ''{'', ''{n'', ''{na'', ''{nam'', ''{name'', ''{name}'']"
  by code_simp

lemma token_suffixes:
  "suffixes ''name}'' = [[], ''}'', ''e}'', ''me}'', ''ame}'', ''name}'']"
  by code_simp

lemma name_parts:
  "\<forall>w \<in> set (suffixes ''name}''). \<forall>n \<in> set (prefixes w). js_includes ''name'' n \<or> n = w"
  by code_simp

lemma no_token_at_name:
  assumes "cannot_form_token n" and "suffix m n" and "m \<noteq> []"
  shows "take (length ''{name}'') (m @ out) \<noteq> ''{name}''"
proof
  assume t: "take (length ''{name}'') (m @ out) = ''{name}''"
  show False
  proof (cases "length ''{name}'' \<le> length m")
    case True
    with t have "take (length ''{name}'') m = ''{name}''" by simp
    then have "js_includes m ''{name}''" using js_includes_iff occurs_at_0 by blast
    moreover obtain z where "n = z @ m" using assms(2) by (auto simp: suffix_def)
    ultimately have "js_includes n ''{name}''" using js_includes_append_left by blast
    then show False using assms(1) by (simp add: cannot_form_token_def)
  next
    case False
    have "prefix ''{name}'' (m @ out)" using t by (metis take_is_prefix)
    then have "prefix ''{name}'' m \<or> prefix m ''{name}''" unfolding prefix_append by auto
    moreover have "\<not> prefix ''{name}'' m" using False by (auto dest: prefix_length_le)
    ultimately have "prefix m ''{name}''" by blast
    then have "m \<in> set (prefixes ''{name}'')" by (simp only: in_set_prefixes)
    moreover have "m \<noteq> ''{name}''" using False by auto
    ultimately have "m \<in> set [''{'', ''{n'', ''{na'', ''{nam'', ''{name'']"
      using assms(3) unfolding token_prefixes by auto
    then show False using assms(1,2) by (auto simp: cannot_form_token_def)
  qed
qed

lemma includes_append_name:
  assumes "cannot_form_token n"
  shows "suffix m n \<Longrightarrow> js_includes (m @ out) ''{name}'' \<Longrightarrow> js_includes out ''{name}''"
proof (induction m)
  case Nil
  then show ?case by simp
next
  case (Cons a m)
  have "take (length ''{name}'') ((a # m) @ out) \<noteq> ''{name}''"
    by (rule no_token_at_name [OF assms Cons.prems(1)]) simp
  then have h: "take (length ''{name}'') (a # (m @ out)) \<noteq> ''{name}''"
    unfolding append_Cons .
  from Cons.prems(2) have "js_includes (a # (m @ out)) ''{name}''"
    unfolding append_Cons .
  with h have "js_includes (m @ out) ''{name}''"
    using js_includes_Cons [of a "m @ out" "''{name}''"] by blast
  moreover have "suffix m n" using Cons.prems(1) by (rule suffix_ConsD)
  ultimately show ?case using Cons.IH by blast
qed

lemma no_prefix_from_name:
  assumes "cannot_form_token n" and "suffix w ''name}''" and "w \<noteq> []"
  shows "take (length w) (n @ rest) \<noteq> w"
proof
  assume t: "take (length w) (n @ rest) = w"
  then have "prefix w (n @ rest)" by (metis take_is_prefix)
  then have "prefix w n \<or> prefix n w" unfolding prefix_append by auto
  moreover have w: "w \<in> set (suffixes ''name}'')" using assms(2) by (simp only: in_set_suffixes)
  moreover have "n = w" if "prefix n w"
  proof -
    have "n \<in> set (prefixes w)" using that by (simp only: in_set_prefixes)
    then have "js_includes ''name'' n \<or> n = w" using name_parts w by blast
    then show ?thesis using assms(1) by (simp add: cannot_form_token_def)
  qed
  ultimately have "prefix w n" by auto
  moreover have "w \<in> set [''}'', ''e}'', ''me}'', ''ame}'', ''name}'']"
    using w assms(3) unfolding token_suffixes by auto
  ultimately show False using assms(1) by (auto simp: cannot_form_token_def)
qed

lemma prefix_preserved:
  assumes "no_replacement_pattern n" and "cannot_form_token n"
  shows "suffix w ''name}'' \<Longrightarrow> w \<noteq> [] \<Longrightarrow>
         take (length w) (replace_from ''{name}'' n bef s) = w \<Longrightarrow> take (length w) s = w"
proof (induction w arbitrary: s bef)
  case Nil
  then show ?case by simp
next
  case (Cons x w')
  show ?case
  proof (cases s)
    case Nil
    with Cons.prems(3) show ?thesis by simp
  next
    case sc: (Cons c cs)
    show ?thesis
    proof (cases "''{name}'' \<noteq> [] \<and> take (length ''{name}'') (c # cs) = ''{name}''")
      case True
      have r: "replace_from ''{name}'' n bef (c # cs)
                  = n @ replace_from ''{name}'' n (bef @ ''{name}'') (drop (length ''{name}'') (c # cs))"
        by (rule replace_from_match [OF assms(1) True])
      from Cons.prems(3) have "take (length (x # w'))
           (n @ replace_from ''{name}'' n (bef @ ''{name}'') (drop (length ''{name}'') (c # cs)))
           = x # w'"
        unfolding sc r .
      then show ?thesis
        using no_prefix_from_name [OF assms(2) Cons.prems(1,2)] by blast
    next
      case False
      have r: "replace_from ''{name}'' n bef (c # cs) = c # replace_from ''{name}'' n (bef @ [c]) cs"
        by (rule replace_from_skip [OF False])
      from Cons.prems(3) have both:
        "take (length (x # w')) (c # replace_from ''{name}'' n (bef @ [c]) cs) = x # w'"
        unfolding sc r .
      from both have cx: "c = x" by simp
      from both have tl: "take (length w') (replace_from ''{name}'' n (bef @ [c]) cs) = w'"
        by auto
      show ?thesis
      proof (cases "w' = []")
        case True
        then show ?thesis using cx sc by simp
      next
        case False
        have "suffix w' ''name}''" using Cons.prems(1) by (rule suffix_ConsD)
        from Cons.IH [OF this False tl] show ?thesis using cx sc by simp
      qed
    qed
  qed
qed

lemma replace_no_token:
  assumes "no_replacement_pattern n" and "cannot_form_token n"
  shows "\<not> js_includes (replace_from ''{name}'' n bef s) ''{name}''"
proof (induction s arbitrary: bef rule: length_induct)
  case (1 s)
  show ?case
  proof (cases s)
    case Nil
    then show ?thesis by (simp add: js_includes_Nil)
  next
    case sc: (Cons c cs)
    show ?thesis
    proof (cases "''{name}'' \<noteq> [] \<and> take (length ''{name}'') (c # cs) = ''{name}''")
      case True
      let ?rest = "drop (length ''{name}'') (c # cs)"
      have r: "replace_from ''{name}'' n bef (c # cs)
                  = n @ replace_from ''{name}'' n (bef @ ''{name}'') ?rest"
        by (rule replace_from_match [OF assms(1) True])
      have "length ?rest < length s" using sc by simp
      then have "\<not> js_includes (replace_from ''{name}'' n (bef @ ''{name}'') ?rest) ''{name}''"
        using 1 by blast
      then have "\<not> js_includes (n @ replace_from ''{name}'' n (bef @ ''{name}'') ?rest) ''{name}''"
        using includes_append_name [OF assms(2) suffix_order.refl] by blast
      then show ?thesis unfolding sc r .
    next
      case False
      let ?out = "replace_from ''{name}'' n (bef @ [c]) cs"
      have r: "replace_from ''{name}'' n bef (c # cs) = c # ?out"
        by (rule replace_from_skip [OF False])
      have ih: "\<not> js_includes ?out ''{name}''" using 1 sc by simp
      have nt: "take (length ''{name}'') (c # ?out) \<noteq> ''{name}''"
      proof
        assume t: "take (length ''{name}'') (c # ?out) = ''{name}''"
        from t have c: "c = CHR ''{''" by simp
        from t have t5: "take (length ''name}'') ?out = ''name}''" by auto
        have "take (length ''name}'') cs = ''name}''"
          by (rule prefix_preserved [OF assms _ _ t5]) (simp_all add: suffix_def)
        then have "take (length ''{name}'') (c # cs) = ''{name}''" using c by simp
        with False show False by simp
      qed
      have "\<not> js_includes (c # ?out) ''{name}''"
        using nt ih js_includes_Cons [of c ?out "''{name}''"] by blast
      then show ?thesis unfolding sc r .
    qed
  qed
qed

lemma build_request_texts:
  "mail_subject (build_request c ct) = replace_from ''{name}'' (name ct) [] (subject c)
   \<and> textContent (build_request c ct) = replace_from ''{name}'' (name ct) [] (message c)"
  by (simp add: build_request_def personalize_def replace_all_def Let_def)

lemma personalize_pieces:
  assumes "no_replacement_pattern n"
  shows "join_with ''{name}'' (template_pieces t) = t
       \<and> list_all (\<lambda>piece. \<not> js_includes piece ''{name}'') (template_pieces t)
       \<and> replace_from ''{name}'' n [] t = join_with n (template_pieces t)"
proof -
  have "join_with ''{name}'' (split_on ''{name}'' [] t) = [] @ t" by (rule join_split)
  moreover have "list_all (\<lambda>piece. \<not> js_includes piece ''{name}'') (split_on ''{name}'' [] t)"
    by (rule pieces_token_free) simp_all
  moreover have "[] @ replace_from ''{name}'' n [] t = join_with n (split_on ''{name}'' [] t)"
    using assms by (rule replace_is_join)
  ultimately show ?thesis by (simp add: template_pieces_def)
qed

lemma personalize_join:
  "no_replacement_pattern n \<Longrightarrow> personalize t n = join_with n (template_pieces t)"
  using personalize_pieces [of n t] by (simp add: personalize_def replace_all_def)

text \<open>
  C7, as the claim states it, fails. The template \<open>Hi {name}\<close> contains the token, and
  for a recipient whose name is the text \<open>{name}\<close>, or the replacement pattern \<open>$&\<close>
  (which stands for the matched text), the personalized text is \<open>Hi {name}\<close> again.
  Nor is the token always replaced with the recipient's name: in a name, \<open>$$\<close> is
  inserted as \<open>$\<close>, \<open>$`\<close> as the text before the token and \<open>$'\<close> as the text after it.
  A name can also make up a new token with the text of the template around it: the
  empty name or a part of the word \<open>name\<close> between the two halves of a token, a name
  ending with a beginning of the token, a name starting with an ending of the token.
\<close>

theorem C7_counterexample:
  "js_includes ''Hi {name}'' ''{name}''
   \<and> js_includes (personalize ''Hi {name}'' ''{name}'') ''{name}''
   \<and> personalize ''Hi {name}'' ''$&'' = ''Hi {name}''
   \<and> personalize ''Hi {name}'' ''A$$B'' = ''Hi A$B''
   \<and> personalize ''Hi {name}!'' [CHR ''$'', CHR 0x60] = ''Hi Hi !''
   \<and> personalize ''Hi {name}!'' [CHR ''$'', CHR 0x27] = ''Hi !!''
   \<and> personalize ''{na{name}me}'' [] = ''{name}''
   \<and> personalize ''{n{name}e}'' ''am'' = ''{name}''
   \<and> personalize ''{name}name}'' ''Jo{'' = ''Jo{name}''
   \<and> personalize ''{nam{name}'' ''e}Jo'' = ''{name}Jo''"
  by code_simp

text \<open>
  C7, amended. For every campaign and every recipient whose name holds none of the
  replacement patterns \<open>$$\<close>, \<open>$&\<close>, \<open>$`\<close> and \<open>$'\<close>: the subject and the message of
  the campaign are their pieces between the occurrences of \<open>{name}\<close> joined with
  \<open>{name}\<close> (no piece contains the token), and the personalized subject and the
  personalized message are the same pieces joined with the recipient's name, so every
  occurrence of the token, and nothing else, is replaced with the name. When moreover
  the name cannot make up the token with the text around it (it does not contain
  \<open>{name}\<close>, does not end with \<open>{\<close>, \<open>{n\<close>, \<open>{na\<close>, \<open>{nam\<close> or \<open>{name\<close>, does not start
  with \<open>}\<close>, \<open>e}\<close>, \<open>me}\<close>, \<open>ame}\<close> or \<open>name}\<close>, and is not a contiguous part of the word
  \<open>name\<close>, so it is not empty), the personalized subject and the personalized message
  contain no occurrence of \<open>{name}\<close>.
\<close>

theorem C7_placeholder_replaced:
  assumes "no_replacement_pattern (name ct)"
  shows "join_with ''{name}'' (template_pieces (subject c)) = subject c
       \<and> join_with ''{name}'' (template_pieces (message c)) = message c
       \<and> list_all (\<lambda>piece. \<not> js_includes piece ''{name}'') (template_pieces (subject c))
       \<and> list_all (\<lambda>piece. \<not> js_includes piece ''{name}'') (template_pieces (message c))
       \<and> mail_subject (build_request c ct) = join_with (name ct) (template_pieces (subject c))
       \<and> textContent (build_request c ct) = join_with (name ct) (template_pieces (message c))
       \<and> (cannot_form_token (name ct) \<longrightarrow>
            \<not> js_includes (mail_subject (build_request c ct)) ''{name}''
          \<and> \<not> js_includes (textContent (build_request c ct)) ''{name}'')"
proof -
  note s = personalize_pieces [OF assms, of "subject c"]
  note m = personalize_pieces [OF assms, of "message c"]
  note b = build_request_texts [of c ct]
  have e1: "mail_subject (build_request c ct)
              = join_with (name ct) (template_pieces (subject c))"
    using s b by simp
  have e2: "textContent (build_request c ct)
              = join_with (name ct) (template_pieces (message c))"
    using m b by simp
  have nt: "\<not> js_includes (mail_subject (build_request c ct)) ''{name}''
          \<and> \<not> js_includes (textContent (build_request c ct)) ''{name}''"
    if "cannot_form_token (name ct)"
  proof -
    have "\<not> js_includes (replace_from ''{name}'' (name ct) [] (subject c)) ''{name}''"
      by (rule replace_no_token [OF assms that])
    moreover
    have "\<not> js_includes (replace_from ''{name}'' (name ct) [] (message c)) ''{name}''"
      by (rule replace_no_token [OF assms that])
    ultimately show ?thesis using b by simp
  qed
  show ?thesis using s m e1 e2 nt by blast
qed

theorem C7_placeholder_replaced_witness:
  "no_replacement_pattern ''Ann {$}''
   \<and> cannot_form_token ''Ann {$}''
   \<and> template_pieces ''Hi {name}'' = [''Hi '', []]
   \<and> template_pieces ''Dear {name}, welcome {name}!'' = [''Dear '', '', welcome '', ''!'']
   \<and> mail_subject
        (build_request
           \<lparr>campaign_id = 7, subject = ''Hi {name}'',
            message = ''Dear {name}, welcome {name}!'',
            totalContacts = 1, sentCount = 0, failedCount = 0, status = ''pending''\<rparr>
           \<lparr>contact_id = 3, name = ''Ann {$}'', email = ''ann@example.com'', isValid = True,
            campaignId = Some 7\<rparr>)
      = ''Hi Ann {$}''
   \<and> textContent
        (build_request
           \<lparr>campaign_id = 7, subject = ''Hi {name}'',
            message = ''Dear {name}, welcome {name}!'',
            totalContacts = 1, sentCount = 0, failedCount = 0, status = ''pending''\<rparr>
           \<lparr>contact_id = 3, name = ''Ann {$}'', email = ''ann@example.com'', isValid = True,
            campaignId = Some 7\<rparr>)
      = ''Dear Ann {$}, welcome Ann {$}!''
   \<and> \<not> js_includes
         (mail_subject
            (build_request
               \<lparr>campaign_id = 7, subject = ''Hi {name}'',
                message = ''Dear {name}, welcome {name}!'',
                totalContacts = 1, sentCount = 0, failedCount = 0, status = ''pending''\<rparr>
               \<lparr>contact_id = 3, name = ''Ann {$}'', email = ''ann@example.com'',
                isValid = True, campaignId = Some 7\<rparr>))
         ''{name}''
   \<and> \<not> js_includes
         (textContent
            (build_request
               \<lparr>campaign_id = 7, subject = ''Hi {name}'',
                message = ''Dear {name}, welcome {name}!'',
                totalContacts = 1, sentCount = 0, failedCount = 0, status = ''pending''\<rparr>
               \<lparr>contact_id = 3, name = ''Ann {$}'', email = ''ann@example.com'',
                isValid = True, campaignId = Some 7\<rparr>))
         ''{name}''"
proof -
  let ?c = "\<lparr>campaign_id = 7, subject = ''Hi {name}'',
            message = ''Dear {name}, welcome {name}!'',
            totalContacts = 1, sentCount = 0, failedCount = 0, status = ''pending''\<rparr>"
  let ?ct = "\<lparr>contact_id = 3, name = ''Ann {$}'', email = ''ann@example.com'',
             isValid = True, campaignId = Some 7\<rparr>"
  have h1: "no_replacement_pattern ''Ann {$}''" by code_simp
  have h2: "cannot_form_token ''Ann {$}''" by code_simp
  have p1: "template_pieces ''Hi {name}'' = [''Hi '', []]" by code_simp
  have p2: "template_pieces ''Dear {name}, welcome {name}!'' = [''Dear '', '', welcome '', ''!'']"
    by code_simp
  have h1': "no_replacement_pattern (name ?ct)" using h1 by simp
  have h2': "cannot_form_token (name ?ct)" using h2 by simp
  note t = C7_placeholder_replaced [OF h1', of ?c]
  from t have e1: "mail_subject (build_request ?c ?ct)
                     = join_with (name ?ct) (template_pieces (subject ?c))"
    by blast
  from t have e2: "textContent (build_request ?c ?ct)
                     = join_with (name ?ct) (template_pieces (message ?c))"
    by blast
  from t h2' have n1: "\<not> js_includes (mail_subject (build_request ?c ?ct)) ''{name}''"
    by blast
  from t h2' have n2: "\<not> js_includes (textContent (build_request ?c ?ct)) ''{name}''"
    by blast
  have s1: "mail_subject (build_request ?c ?ct) = ''Hi Ann {$}''"
    unfolding e1 by (simp add: p1)
  have s2: "textContent (build_request ?c ?ct) = ''Dear Ann {$}, welcome Ann {$}!''"
    unfolding e2 by (simp add: p2)
  from h1 h2 p1 p2 s1 s2 n1 n2 show ?thesis by blast
qed

text \<open>
  Each of the four conditions on the name is needed: a name without replacement
  patterns that fails one of them gives back the token for some template.
\<close>

lemma token_after_name:
  "\<forall>p \<in> set [''{'', ''{n'', ''{na'', ''{nam'', ''{name''].
     template_pieces (''{name}'' @ drop (length p) ''{name}'') = [[], drop (length p) ''{name}'']
     \<and> p @ drop (length p) ''{name}'' = ''{name}''"
  by code_simp

lemma token_before_name:
  "\<forall>q \<in> set [''}'', ''e}'', ''me}'', ''ame}'', ''name}''].
     template_pieces (take (6 - length q) ''{name}'' @ ''{name}'')
       = [take (6 - length q) ''{name}'', []]
     \<and> take (6 - length q) ''{name}'' @ q = ''{name}''"
  by code_simp

lemma token_around_name:
  "\<forall>n \<in> set (concat (map prefixes (suffixes ''name''))).
     \<exists>t \<in> set [''{{name}name}'', ''{n{name}ame}'', ''{na{name}me}'', ''{nam{name}e}'',
                ''{name{name}}'', ''{{name}ame}'', ''{{name}me}'', ''{{name}e}'', ''{{name}}'',
                ''{n{name}me}'', ''{n{name}e}'', ''{n{name}}'', ''{na{name}e}'', ''{na{name}}'',
                ''{nam{name}}''].
       js_includes (personalize t n) ''{name}''"
  by code_simp

lemma cannot_form_token_needed:
  assumes "no_replacement_pattern n" and "\<not> cannot_form_token n"
  shows "\<exists>t. js_includes (personalize t n) ''{name}''"
proof -
  note pj = personalize_join [OF assms(1)]
  from assms(2) consider
      (inside) "js_includes n ''{name}''"
    | (ends) p where "p \<in> set [''{'', ''{n'', ''{na'', ''{nam'', ''{name'']" "suffix p n"
    | (starts) q where "q \<in> set [''}'', ''e}'', ''me}'', ''ame}'', ''name}'']" "prefix q n"
    | (part) "js_includes ''name'' n"
    unfolding cannot_form_token_def list_all_iff by blast
  then show ?thesis
  proof cases
    case inside
    have "template_pieces ''{name}'' = [[], []]" by code_simp
    then have "personalize ''{name}'' n = n" using pj [of "''{name}''"] by simp
    then show ?thesis using inside by metis
  next
    case ends
    let ?r = "drop (length p) ''{name}''"
    from ends(1) token_after_name
    have tp: "template_pieces (''{name}'' @ ?r) = [[], ?r]" and pr: "p @ ?r = ''{name}''"
      by blast+
    obtain z where z: "n = z @ p" using ends(2) by (auto simp: suffix_def)
    have "personalize (''{name}'' @ ?r) n = n @ ?r" using pj [of "''{name}'' @ ?r"] tp by simp
    also have "\<dots> = z @ ''{name}''" using z pr by simp
    finally have e: "personalize (''{name}'' @ ?r) n = z @ ''{name}''" .
    have "js_includes ''{name}'' ''{name}''" by code_simp
    then have "js_includes (z @ ''{name}'') ''{name}''" by (rule js_includes_append_left)
    then show ?thesis using e by metis
  next
    case starts
    let ?l = "take (6 - length q) ''{name}''"
    from starts(1) token_before_name
    have tp: "template_pieces (?l @ ''{name}'') = [?l, []]" and lq: "?l @ q = ''{name}''"
      by blast+
    obtain z where z: "n = q @ z" using starts(2) by (auto simp: prefix_def)
    have "personalize (?l @ ''{name}'') n = ?l @ n" using pj [of "?l @ ''{name}''"] tp by simp
    also have "\<dots> = ''{name}'' @ z" using z lq by simp
    finally have e: "personalize (?l @ ''{name}'') n = ''{name}'' @ z" .
    have "take (length ''{name}'') (''{name}'' @ z) = ''{name}''" by simp
    then have "js_includes (''{name}'' @ z) ''{name}''"
      using js_includes_iff occurs_at_0 by blast
    then show ?thesis using e by metis
  next
    case part
    then obtain i where "occurs_at ''name'' n i" by (auto simp: js_includes_iff)
    then have "take (length n) (drop i ''name'') = n" by (simp add: occurs_at_def)
    then have "prefix n (drop i ''name'')" by (metis take_is_prefix)
    then have a: "n \<in> set (prefixes (drop i ''name''))" by (simp only: in_set_prefixes)
    have "suffix (drop i ''name'') ''name''" by (rule suffix_drop)
    then have b: "drop i ''name'' \<in> set (suffixes ''name'')" by (simp only: in_set_suffixes)
    from a b have "n \<in> set (concat (map prefixes (suffixes ''name'')))"
      unfolding set_concat set_map by blast
    then show ?thesis using token_around_name by blast
  qed
qed

section \<open>Campaign dispatch: results and final status\<close>

lemma createEmailResult_eq:
  "createEmailResult st ins =
     (\<lparr>result_id = uuids_issued st, result_campaignId = ins_result_campaignId ins,
       result_contactId = ins_result_contactId ins, result_email = ins_result_email ins,
       result_status = ins_result_status ins, result_error = ins_result_error ins\<rparr>,
      st\<lparr>uuids_issued := Suc (uuids_issued st),
         emailResults := AList.update (uuids_issued st)
            \<lparr>result_id = uuids_issued st, result_campaignId = ins_result_campaignId ins,
             result_contactId = ins_result_contactId ins, result_email = ins_result_email ins,
             result_status = ins_result_status ins, result_error = ins_result_error ins\<rparr>
            (emailResults st)\<rparr>)"
  by (simp add: createEmailResult_def randomUUID_def Let_def)

lemma provider_outcomes_length: "length (provider_outcomes api c w cts) = length cts"
  by (induction cts arbitrary: w) (auto split: prod.splits)

lemma send_loop_counts:
  "send_loop api c cid cts s f st w = (s', f', st', w') \<Longrightarrow>
     s' = s + count_delivered (provider_outcomes api c w cts)
   \<and> f' = f + count_thrown (provider_outcomes api c w cts)
   \<and> contacts st' = contacts st \<and> campaigns st' = campaigns st
   \<and> aiMessages st' = aiMessages st
   \<and> uuids_issued st' = uuids_issued st + length cts"
proof (induction cts arbitrary: s f st w)
  case Nil
  then show ?case by (simp add: count_delivered_def count_thrown_def)
next
  case (Cons ct rest)
  obtain out w1 where a: "api w (build_request c ct) = (out, w1)"
    by (cases "api w (build_request c ct)")
  show ?case
  proof (cases out)
    case Delivered
    with a Cons.prems show ?thesis
      using Cons.IH [of "Suc s" f _ w1]
      by (simp add: createEmailResult_eq count_delivered_def count_thrown_def)
  next
    case (Thrown e)
    with a Cons.prems show ?thesis
      using Cons.IH [of s "Suc f" _ w1]
      by (simp add: createEmailResult_eq count_delivered_def count_thrown_def)
  qed
qed

lemma send_loop_entries:
  assumes "list_all (\<lambda>k. k < uuids_issued st) (map fst (emailResults st))"
      and "send_loop api c cid cts s f st w = (s', f', st', w')"
  shows "emailResults st'
           = emailResults st
             @ result_entries (uuids_issued st) cid cts (provider_outcomes api c w cts)"
  using assms
proof (induction cts arbitrary: s f st w)
  case Nil
  then show ?case by simp
next
  case (Cons ct rest)
  let ?n = "uuids_issued st"
  obtain out w1 where a: "api w (build_request c ct) = (out, w1)"
    by (cases "api w (build_request c ct)")
  let ?r = "\<lparr>result_id = ?n, result_campaignId = cid, result_contactId = contact_id ct,
          result_email = email ct,
          result_status = (case out of Delivered \<Rightarrow> ''sent'' | Thrown e \<Rightarrow> ''failed''),
          result_error =
            (case out of
               Delivered \<Rightarrow> None
             | Thrown e \<Rightarrow> Some (case e of Some m \<Rightarrow> m | None \<Rightarrow> ''Unknown error''))\<rparr>"
  let ?st1 = "st\<lparr>uuids_issued := Suc ?n, emailResults := AList.update ?n ?r (emailResults st)\<rparr>"
  have fresh: "?n \<notin> fst ` set (emailResults st)"
    using Cons.prems(1) by (auto simp: list_all_iff)
  have up: "emailResults ?st1 = emailResults st @ [(?n, ?r)]"
    using update_fresh [OF fresh] by simp
  have wf1: "list_all (\<lambda>k. k < uuids_issued ?st1) (map fst (emailResults ?st1))"
    using Cons.prems(1) up by (auto simp: list_all_iff)
  have step: "send_loop api c cid (ct # rest) s f st w
        = send_loop api c cid rest
            (case out of Delivered \<Rightarrow> Suc s | Thrown e \<Rightarrow> s)
            (case out of Delivered \<Rightarrow> f | Thrown e \<Rightarrow> Suc f) ?st1 w1"
    using a by (cases out) (simp_all add: createEmailResult_eq)
  have outs: "provider_outcomes api c w (ct # rest) = out # provider_outcomes api c w1 rest"
    using a by simp
  from Cons.prems(2) step have run:
    "send_loop api c cid rest
            (case out of Delivered \<Rightarrow> Suc s | Thrown e \<Rightarrow> s)
            (case out of Delivered \<Rightarrow> f | Thrown e \<Rightarrow> Suc f) ?st1 w1 = (s', f', st', w')"
    by simp
  note ih = Cons.IH [OF wf1 run]
  have ent: "result_entries ?n cid (ct # rest) (out # provider_outcomes api c w1 rest)
        = (?n, ?r) # result_entries (Suc ?n) cid rest (provider_outcomes api c w1 rest)"
    by simp
  show ?case unfolding outs ent using ih up by simp
qed

lemma counts_total: "count_delivered outs + count_thrown outs = length outs"
  unfolding count_delivered_def count_thrown_def by (rule sum_length_filter_compl)

lemma result_entries_props:
  "length outs = length cts \<Longrightarrow>
     length (result_entries n cid cts outs) = length cts
   \<and> map fst (result_entries n cid cts outs) = [n..<n + length cts]
   \<and> map (result_contactId \<circ> snd) (result_entries n cid cts outs) = map contact_id cts
   \<and> map (result_email \<circ> snd) (result_entries n cid cts outs) = map email cts
   \<and> map (result_status \<circ> snd) (result_entries n cid cts outs)
       = map (\<lambda>out. case out of Delivered \<Rightarrow> ''sent'' | Thrown e \<Rightarrow> ''failed'') outs
   \<and> list_all (\<lambda>(k, r). result_id r = k \<and> result_campaignId r = cid
                      \<and> (result_status r = ''sent'' \<or> result_status r = ''failed''))
        (result_entries n cid cts outs)"
proof (induction cts outs arbitrary: n rule: list_induct2')
  case (4 ct cts out outs)
  then have l: "length outs = length cts" by simp
  have "[n..<n + length (ct # cts)] = n # [Suc n..<Suc n + length cts]"
    by (simp add: upt_conv_Cons del: upt_Suc)
  then show ?case using 4(1) [OF l, of "Suc n"]
    by (cases out) (simp_all del: upt_Suc)
qed simp_all

lemma status_counts:
  "length (filter (\<lambda>t. t = ''sent'')
      (map (\<lambda>out. case out of Delivered \<Rightarrow> ''sent'' | Thrown e \<Rightarrow> ''failed'') outs))
     = count_delivered outs
   \<and> length (filter (\<lambda>t. t = ''failed'')
      (map (\<lambda>out. case out of Delivered \<Rightarrow> ''sent'' | Thrown e \<Rightarrow> ''failed'') outs))
     = count_thrown outs"
  by (induction outs) (auto simp: count_delivered_def count_thrown_def split: send_outcome.splits)

lemma send_campaign_configured:
  assumes "getCampaign st cid = Some c"
  shows "\<exists>st2 st' w'.
      send_loop api c cid (filter isValid (getContactsByCampaign st cid)) 0 0
        (st\<lparr>campaigns := AList.update cid (c\<lparr>status := ''sending''\<rparr>) (campaigns st)\<rparr>) w
        = (count_delivered (provider_outcomes api c w (filter isValid (getContactsByCampaign st cid))),
           count_thrown (provider_outcomes api c w (filter isValid (getContactsByCampaign st cid))),
           st2, w')
    \<and> st' = st2\<lparr>campaigns := AList.update cid
                (c\<lparr>status := ''completed'',
                   sentCount := count_delivered (provider_outcomes api c w (filter isValid (getContactsByCampaign st cid))),
                   failedCount := count_thrown (provider_outcomes api c w (filter isValid (getContactsByCampaign st cid)))\<rparr>)
                (campaigns st2)\<rparr>
    \<and> send_campaign (Some api) st w cid
        = (SendOk (count_delivered (provider_outcomes api c w (filter isValid (getContactsByCampaign st cid))))
                  (count_thrown (provider_outcomes api c w (filter isValid (getContactsByCampaign st cid))))
                  (length (filter isValid (getContactsByCampaign st cid))),
           st', w')"
proof -
  let ?st1 = "st\<lparr>campaigns := AList.update cid (c\<lparr>status := ''sending''\<rparr>) (campaigns st)\<rparr>"
  let ?valid = "filter isValid (getContactsByCampaign st cid)"
  obtain s' f' st2 w' where l: "send_loop api c cid ?valid 0 0 ?st1 w = (s', f', st2, w')"
    by (cases "send_loop api c cid ?valid 0 0 ?st1 w") auto
  note k = send_loop_counts [OF l]
  have m: "map_of (campaigns st2) cid = Some (c\<lparr>status := ''sending''\<rparr>)"
    using k by (simp add: update_conv')
  have g: "getContactsByCampaign ?st1 cid = getContactsByCampaign st cid"
    by (simp add: getContactsByCampaign_def)
  have run: "send_campaign (Some api) st w cid
        = (SendOk s' f' (length ?valid),
           st2\<lparr>campaigns := AList.update cid
                (c\<lparr>status := ''completed'', sentCount := s', failedCount := f'\<rparr>)
                (campaigns st2)\<rparr>, w')"
    using assms l m g
    by (simp add: send_campaign_def updateCampaign_def getCampaign_def Let_def)
  show ?thesis using l k run by simp
qed


lemma example_dispatch:
  "send_campaign (Some second_send_fails) example_store 0 4
   = (SendOk 2 1 3,
      \<lparr>contacts = contacts example_store,
       campaigns =
         [(4, \<lparr>campaign_id = 4, subject = ''Hi {name}'', message = ''Dear {name}'',
               totalContacts = 4, sentCount = 2, failedCount = 1, status = ''completed''\<rparr>)],
       emailResults =
         [(5, \<lparr>result_id = 5, result_campaignId = 4, result_contactId = 0,
               result_email = ''ann@example.com'', result_status = ''sent'',
               result_error = None\<rparr>),
          (6, \<lparr>result_id = 6, result_campaignId = 4, result_contactId = 1,
               result_email = ''bob@example.com'', result_status = ''failed'',
               result_error = Some ''mailbox unavailable''\<rparr>),
          (7, \<lparr>result_id = 7, result_campaignId = 4, result_contactId = 3,
               result_email = ''dee@example.com'', result_status = ''sent'',
               result_error = None\<rparr>)],
       aiMessages = [], uuids_issued = 8\<rparr>,
      3)"
  by code_simp

lemma example_failed_dispatch:
  "send_campaign (Some every_send_fails) example_store 0 4
   = (SendOk 0 3 3,
      \<lparr>contacts = contacts example_store,
       campaigns =
         [(4, \<lparr>campaign_id = 4, subject = ''Hi {name}'', message = ''Dear {name}'',
               totalContacts = 4, sentCount = 0, failedCount = 3, status = ''completed''\<rparr>)],
       emailResults =
         [(5, \<lparr>result_id = 5, result_campaignId = 4, result_contactId = 0,
               result_email = ''ann@example.com'', result_status = ''failed'',
               result_error = Some ''Unknown error''\<rparr>),
          (6, \<lparr>result_id = 6, result_campaignId = 4, result_contactId = 1,
               result_email = ''bob@example.com'', result_status = ''failed'',
               result_error = Some ''Unknown error''\<rparr>),
          (7, \<lparr>result_id = 7, result_campaignId = 4, result_contactId = 3,
               result_email = ''dee@example.com'', result_status = ''failed'',
               result_error = Some ''Unknown error''\<rparr>)],
       aiMessages = [], uuids_issued = 8\<rparr>,
      3)"
  by code_simp

text \<open>What a dispatch with the credential configured adds to the store, in terms of
  the contacts that the route selects.\<close>

lemma dispatch_results:
  assumes "store_wf st" and "getCampaign st cid = Some c"
  shows "\<exists>sent failed st' w' new.
           send_campaign (Some api) st w cid
             = (SendOk sent failed (length (filter isValid (getContactsByCampaign st cid))),
                st', w')
         \<and> sent + failed = length (filter isValid (getContactsByCampaign st cid))
         \<and> emailResults st' = emailResults st @ new
         \<and> length new = length (filter isValid (getContactsByCampaign st cid))
         \<and> map fst new
             = [uuids_issued st..<
                uuids_issued st + length (filter isValid (getContactsByCampaign st cid))]
         \<and> map (result_contactId \<circ> snd) new
             = map contact_id (filter isValid (getContactsByCampaign st cid))
         \<and> map (result_email \<circ> snd) new
             = map email (filter isValid (getContactsByCampaign st cid))
         \<and> map (result_status \<circ> snd) new
             = map (\<lambda>out. case out of Delivered \<Rightarrow> ''sent'' | Thrown e \<Rightarrow> ''failed'')
                 (provider_outcomes api c w (filter isValid (getContactsByCampaign st cid)))
         \<and> list_all (\<lambda>(k, r). result_id r = k \<and> result_campaignId r = cid
                        \<and> (result_status r = ''sent'' \<or> result_status r = ''failed'')) new
         \<and> sent = length (filter (\<lambda>t. t = ''sent'') (map (result_status \<circ> snd) new))
         \<and> failed = length (filter (\<lambda>t. t = ''failed'') (map (result_status \<circ> snd) new))"
proof -
  let ?valid = "filter isValid (getContactsByCampaign st cid)"
  let ?outs = "provider_outcomes api c w ?valid"
  let ?st1 = "st\<lparr>campaigns := AList.update cid (c\<lparr>status := ''sending''\<rparr>) (campaigns st)\<rparr>"
  let ?new = "result_entries (uuids_issued st) cid ?valid ?outs"
  obtain st2 st' w' where r:
    "send_loop api c cid ?valid 0 0 ?st1 w = (count_delivered ?outs, count_thrown ?outs, st2, w')"
    "st' = st2\<lparr>campaigns := AList.update cid
                (c\<lparr>status := ''completed'', sentCount := count_delivered ?outs,
                   failedCount := count_thrown ?outs\<rparr>) (campaigns st2)\<rparr>"
    "send_campaign (Some api) st w cid
        = (SendOk (count_delivered ?outs) (count_thrown ?outs) (length ?valid), st', w')"
    using send_campaign_configured [OF assms(2), of api w] by blast
  have wf1: "list_all (\<lambda>k. k < uuids_issued ?st1) (map fst (emailResults ?st1))"
    using assms(1) by (simp add: store_wf_def)
  have e: "emailResults st' = emailResults st @ ?new"
    using send_loop_entries [OF wf1 r(1)] r(2) by simp
  have len: "length ?outs = length ?valid" by (rule provider_outcomes_length)
  note p = result_entries_props [OF len, of "uuids_issued st" cid]
  have tot: "count_delivered ?outs + count_thrown ?outs = length ?valid"
    using counts_total [of ?outs] len by simp
  have sc: "count_delivered ?outs = length (filter (\<lambda>t. t = ''sent'') (map (result_status \<circ> snd) ?new))"
       "count_thrown ?outs = length (filter (\<lambda>t. t = ''failed'') (map (result_status \<circ> snd) ?new))"
    using p status_counts [of ?outs] by simp_all
  show ?thesis
    apply (rule exI [of _ "count_delivered ?outs"])
    apply (rule exI [of _ "count_thrown ?outs"])
    apply (rule exI [of _ st'])
    apply (rule exI [of _ w'])
    apply (rule exI [of _ ?new])
    using r(3) tot e p sc by blast
qed

text \<open>The contacts that the route selects are the contacts attached to the campaign
  whose stored validity flag is true, in the store's insertion order.\<close>

lemma selected_contacts:
  "filter isValid (getContactsByCampaign st cid)
     = filter (\<lambda>ct. campaignId ct = Some cid \<and> isValid ct) (map snd (contacts st))"
  by (simp add: getContactsByCampaign_def)

lemma mixed_dispatch:
  "send_campaign (Some second_send_fails) mixed_store 0 6
   = (SendOk 2 1 3,
      \<lparr>contacts = contacts mixed_store,
       campaigns =
         [(6, \<lparr>campaign_id = 6, subject = ''Hi {name}'', message = ''Dear {name}'',
               totalContacts = 4, sentCount = 2, failedCount = 1, status = ''completed''\<rparr>),
          (7, \<lparr>campaign_id = 7, subject = ''News'', message = ''Hello {name}'',
               totalContacts = 1, sentCount = 1, failedCount = 0, status = ''completed''\<rparr>)],
       emailResults =
         [(8, \<lparr>result_id = 8, result_campaignId = 7, result_contactId = 1,
               result_email = ''eve@example.com'', result_status = ''sent'',
               result_error = None\<rparr>),
          (9, \<lparr>result_id = 9, result_campaignId = 6, result_contactId = 0,
               result_email = ''ann@example.com'', result_status = ''sent'',
               result_error = None\<rparr>),
          (10, \<lparr>result_id = 10, result_campaignId = 6, result_contactId = 2,
               result_email = ''bob@example.com'', result_status = ''failed'',
               result_error = Some ''mailbox unavailable''\<rparr>),
          (11, \<lparr>result_id = 11, result_campaignId = 6, result_contactId = 5,
               result_email = ''dee@example.com'', result_status = ''sent'',
               result_error = None\<rparr>)],
       aiMessages = [], uuids_issued = 12\<rparr>,
      3)"
  by code_simp

text \<open>
  C5, as the claim states it, fails for a dispatch without the email credential. In
  the store \<open>mixed_store\<close>, three contacts are attached to campaign 6 with a stored
  validity flag that is true; the dispatch of campaign 6 without the credential answers 503,
  with no \<open>sentCount\<close> and no \<open>failedCount\<close>, and creates no email result.
\<close>

theorem C5_counterexample:
  "getCampaign mixed_store 6 = Some mixed_campaign
   \<and> map contact_id
        (filter (\<lambda>ct. campaignId ct = Some 6 \<and> isValid ct) (map snd (contacts mixed_store)))
      = [0, 2, 5]
   \<and> fst (send_campaign None mixed_store (0::nat) 6)
      = SendError 503
          ''Email service not configured. Please add BREVO_API_KEY to environment variables.''
   \<and> emailResults (fst (snd (send_campaign None mixed_store (0::nat) 6)))
      = emailResults mixed_store"
  by code_simp

text \<open>
  C5, amended. A dispatch of an existing campaign on a store whose keys all came from
  \<open>randomUUID\<close> (as in every store reached from the new store by requests, see
  \<open>store_wf_reachable\<close> below). The recipients are the contacts of the store whose \<open>campaignId\<close> is
  the campaign's identifier and whose stored validity flag is true, in the store's
  insertion order; N is their number. With the email credential configured, the
  response carries \<open>sentCount\<close>, \<open>failedCount\<close> and the total N with
  \<open>sentCount + failedCount = N\<close>, and exactly N email results are appended to the
  store, under new identifiers, the i-th for the i-th recipient, each for this campaign
  and with status \<open>sent\<close> or \<open>failed\<close>. The status of the i-th record is the outcome of
  the i-th send, whatever the earlier sends did; the counters count the two kinds of
  records. Without the credential the response is the error 503 and no email result
  is created.
\<close>

theorem C5_dispatch_results:
  assumes "store_wf st" and "getCampaign st cid = Some c"
  shows "\<exists>recipients sent failed st' w' new st0.
           recipients
             = filter (\<lambda>ct. campaignId ct = Some cid \<and> isValid ct) (map snd (contacts st))
         \<and> send_campaign (Some api) st w cid
             = (SendOk sent failed (length recipients), st', w')
         \<and> sent + failed = length recipients
         \<and> emailResults st' = emailResults st @ new
         \<and> length new = length recipients
         \<and> map fst new = [uuids_issued st..<uuids_issued st + length recipients]
         \<and> map (result_contactId \<circ> snd) new = map contact_id recipients
         \<and> map (result_email \<circ> snd) new = map email recipients
         \<and> map (result_status \<circ> snd) new
             = map (\<lambda>out. case out of Delivered \<Rightarrow> ''sent'' | Thrown e \<Rightarrow> ''failed'')
                 (provider_outcomes api c w recipients)
         \<and> list_all (\<lambda>(k, r). result_id r = k \<and> result_campaignId r = cid
                        \<and> (result_status r = ''sent'' \<or> result_status r = ''failed'')) new
         \<and> sent = length (filter (\<lambda>t. t = ''sent'') (map (result_status \<circ> snd) new))
         \<and> failed = length (filter (\<lambda>t. t = ''failed'') (map (result_status \<circ> snd) new))
         \<and> send_campaign None st w cid
             = (SendError 503
                  ''Email service not configured. Please add BREVO_API_KEY to environment variables.'',
                st0, w)
         \<and> emailResults st0 = emailResults st"
proof -
  let ?st0 = "st\<lparr>campaigns := AList.update cid (c\<lparr>status := ''sending''\<rparr>) (campaigns st)\<rparr>"
  have none: "send_campaign None st w cid
      = (SendError 503
           ''Email service not configured. Please add BREVO_API_KEY to environment variables.'',
         ?st0, w)"
    using assms(2)
    by (simp add: send_campaign_def updateCampaign_def getCampaign_def Let_def)
  have res: "emailResults ?st0 = emailResults st" by simp
  from dispatch_results [OF assms, of api w] none res
  show ?thesis unfolding selected_contacts by blast
qed

theorem C5_dispatch_results_witness:
  "store_wf mixed_store
   \<and> getCampaign mixed_store 6 = Some mixed_campaign
   \<and> (\<exists>recipients sent failed st' w' new st0.
           recipients
             = filter (\<lambda>ct. campaignId ct = Some 6 \<and> isValid ct) (map snd (contacts mixed_store))
         \<and> send_campaign (Some second_send_fails) mixed_store 0 6
             = (SendOk sent failed (length recipients), st', w')
         \<and> sent + failed = length recipients
         \<and> emailResults st' = emailResults mixed_store @ new
         \<and> length new = length recipients
         \<and> map fst new
             = [uuids_issued mixed_store..<uuids_issued mixed_store + length recipients]
         \<and> map (result_contactId \<circ> snd) new = map contact_id recipients
         \<and> map (result_email \<circ> snd) new = map email recipients
         \<and> map (result_status \<circ> snd) new
             = map (\<lambda>out. case out of Delivered \<Rightarrow> ''sent'' | Thrown e \<Rightarrow> ''failed'')
                 (provider_outcomes second_send_fails mixed_campaign 0 recipients)
         \<and> list_all (\<lambda>(k, r). result_id r = k \<and> result_campaignId r = 6
                        \<and> (result_status r = ''sent'' \<or> result_status r = ''failed'')) new
         \<and> sent = length (filter (\<lambda>t. t = ''sent'') (map (result_status \<circ> snd) new))
         \<and> failed = length (filter (\<lambda>t. t = ''failed'') (map (result_status \<circ> snd) new))
         \<and> send_campaign None mixed_store (0::nat) 6
             = (SendError 503
                  ''Email service not configured. Please add BREVO_API_KEY to environment variables.'',
                st0, 0)
         \<and> emailResults st0 = emailResults mixed_store)
   \<and> map contact_id
        (filter (\<lambda>ct. campaignId ct = Some 6 \<and> isValid ct) (map snd (contacts mixed_store)))
      = [0, 2, 5]
   \<and> fst (send_campaign (Some second_send_fails) mixed_store 0 6) = SendOk 2 1 3
   \<and> map snd (emailResults (fst (snd (send_campaign (Some second_send_fails) mixed_store 0 6))))
      = [\<lparr>result_id = 8, result_campaignId = 7, result_contactId = 1,
          result_email = ''eve@example.com'', result_status = ''sent'', result_error = None\<rparr>,
         \<lparr>result_id = 9, result_campaignId = 6, result_contactId = 0,
          result_email = ''ann@example.com'', result_status = ''sent'', result_error = None\<rparr>,
         \<lparr>result_id = 10, result_campaignId = 6, result_contactId = 2,
          result_email = ''bob@example.com'', result_status = ''failed'',
          result_error = Some ''mailbox unavailable''\<rparr>,
         \<lparr>result_id = 11, result_campaignId = 6, result_contactId = 5,
          result_email = ''dee@example.com'', result_status = ''sent'', result_error = None\<rparr>]"
proof -
  have h1: "store_wf mixed_store" by code_simp
  have h2: "getCampaign mixed_store 6 = Some mixed_campaign" by code_simp
  have r0: "map contact_id
        (filter (\<lambda>ct. campaignId ct = Some 6 \<and> isValid ct) (map snd (contacts mixed_store)))
      = [0, 2, 5]"
    by code_simp
  have r1: "fst (send_campaign (Some second_send_fails) mixed_store 0 6) = SendOk 2 1 3"
    by (simp add: mixed_dispatch)
  have r2: "map snd (emailResults (fst (snd (send_campaign (Some second_send_fails) mixed_store 0 6))))
      = [\<lparr>result_id = 8, result_campaignId = 7, result_contactId = 1,
          result_email = ''eve@example.com'', result_status = ''sent'', result_error = None\<rparr>,
         \<lparr>result_id = 9, result_campaignId = 6, result_contactId = 0,
          result_email = ''ann@example.com'', result_status = ''sent'', result_error = None\<rparr>,
         \<lparr>result_id = 10, result_campaignId = 6, result_contactId = 2,
          result_email = ''bob@example.com'', result_status = ''failed'',
          result_error = Some ''mailbox unavailable''\<rparr>,
         \<lparr>result_id = 11, result_campaignId = 6, result_contactId = 5,
          result_email = ''dee@example.com'', result_status = ''sent'', result_error = None\<rparr>]"
    by (simp add: mixed_dispatch)
  note ex = C5_dispatch_results [OF h1 h2, of second_send_fails 0]
  show ?thesis
    by (intro conjI) (rule h1, rule h2, rule ex, rule r0, rule r1, rule r2)
qed

text \<open>
  C6. A dispatch that reaches the send loop (the campaign exists, the credential is
  configured) answers with the tally of the loop, and afterwards the stored campaign
  is the campaign as it was with status \<open>completed\<close> and \<open>sentCount\<close>, \<open>failedCount\<close>
  set to that tally: the number of sends the provider accepted and the number it
  refused. When the provider refuses every send the tally is 0 and N, and the status
  is \<open>completed\<close> all the same.
\<close>

theorem C6_dispatch_completes:
  assumes "getCampaign st cid = Some c"
  shows "\<exists>sent failed st' w'.
           send_campaign (Some api) st w cid
             = (SendOk sent failed (length (filter isValid (getContactsByCampaign st cid))),
                st', w')
         \<and> sent = count_delivered
                    (provider_outcomes api c w (filter isValid (getContactsByCampaign st cid)))
         \<and> failed = count_thrown
                    (provider_outcomes api c w (filter isValid (getContactsByCampaign st cid)))
         \<and> getCampaign st' cid
             = Some (c\<lparr>status := ''completed'', sentCount := sent, failedCount := failed\<rparr>)
         \<and> (list_all (\<lambda>out. out \<noteq> Delivered)
               (provider_outcomes api c w (filter isValid (getContactsByCampaign st cid)))
             \<longrightarrow> sent = 0
                 \<and> failed = length (filter isValid (getContactsByCampaign st cid)))"
proof -
  let ?valid = "filter isValid (getContactsByCampaign st cid)"
  let ?outs = "provider_outcomes api c w ?valid"
  obtain st2 st' w' where r:
    "st' = st2\<lparr>campaigns := AList.update cid
                (c\<lparr>status := ''completed'', sentCount := count_delivered ?outs,
                   failedCount := count_thrown ?outs\<rparr>) (campaigns st2)\<rparr>"
    "send_campaign (Some api) st w cid
        = (SendOk (count_delivered ?outs) (count_thrown ?outs) (length ?valid), st', w')"
    using send_campaign_configured [OF assms, of api w] by blast
  have g: "getCampaign st' cid
             = Some (c\<lparr>status := ''completed'', sentCount := count_delivered ?outs,
                       failedCount := count_thrown ?outs\<rparr>)"
    using r(1) by (simp add: getCampaign_def update_conv')
  have len: "length ?outs = length ?valid" by (rule provider_outcomes_length)
  have allf: "count_delivered ?outs = 0 \<and> count_thrown ?outs = length ?valid"
    if "list_all (\<lambda>out. out \<noteq> Delivered) ?outs"
  proof -
    from that have "filter (\<lambda>out. out = Delivered) ?outs = []"
      by (simp add: list_all_iff filter_empty_conv)
    then have "count_delivered ?outs = 0" by (simp add: count_delivered_def)
    then show ?thesis using counts_total [of ?outs] len by simp
  qed
  show ?thesis using r(2) g allf by blast
qed


theorem C6_dispatch_completes_witness:
  "getCampaign example_store 4 = Some example_campaign
   \<and> list_all (\<lambda>out. out \<noteq> Delivered)
        (provider_outcomes every_send_fails example_campaign 0
           (filter isValid (getContactsByCampaign example_store 4)))
   \<and> (\<exists>sent failed st' w'.
           send_campaign (Some every_send_fails) example_store 0 4
             = (SendOk sent failed
                  (length (filter isValid (getContactsByCampaign example_store 4))), st', w')
         \<and> sent = count_delivered
                    (provider_outcomes every_send_fails example_campaign 0
                       (filter isValid (getContactsByCampaign example_store 4)))
         \<and> failed = count_thrown
                    (provider_outcomes every_send_fails example_campaign 0
                       (filter isValid (getContactsByCampaign example_store 4)))
         \<and> getCampaign st' 4
             = Some (example_campaign\<lparr>status := ''completed'', sentCount := sent,
                                      failedCount := failed\<rparr>)
         \<and> sent = 0
         \<and> failed = length (filter isValid (getContactsByCampaign example_store 4)))
   \<and> fst (send_campaign (Some every_send_fails) example_store 0 4) = SendOk 0 3 3
   \<and> getCampaign (fst (snd (send_campaign (Some every_send_fails) example_store 0 4))) 4
      = Some \<lparr>campaign_id = 4, subject = ''Hi {name}'', message = ''Dear {name}'',
              totalContacts = 4, sentCount = 0, failedCount = 3, status = ''completed''\<rparr>"
proof -
  have h: "getCampaign example_store 4 = Some example_campaign" by code_simp
  have a: "list_all (\<lambda>out. out \<noteq> Delivered)
        (provider_outcomes every_send_fails example_campaign 0
           (filter isValid (getContactsByCampaign example_store 4)))"
    by code_simp
  have r1: "fst (send_campaign (Some every_send_fails) example_store 0 4) = SendOk 0 3 3"
    by (simp add: example_failed_dispatch)
  have r2: "getCampaign (fst (snd (send_campaign (Some every_send_fails) example_store 0 4))) 4
      = Some \<lparr>campaign_id = 4, subject = ''Hi {name}'', message = ''Dear {name}'',
              totalContacts = 4, sentCount = 0, failedCount = 3, status = ''completed''\<rparr>"
    by (simp add: example_failed_dispatch getCampaign_def)
  from h a C6_dispatch_completes [OF h, of every_send_fails 0] r1 r2
  show ?thesis by blast
qed

section \<open>Campaign dispatch without the credential\<close>

lemma upload_frame:
  "campaigns (snd (upload_contacts st upl)) = campaigns st
   \<and> emailResults (snd (upload_contacts st upl)) = emailResults st
   \<and> uuids_issued st \<le> uuids_issued (snd (upload_contacts st upl))"
proof (cases upl)
  case (Sheet rows)
  show ?thesis
  proof (cases rows)
    case Nil
    with Sheet show ?thesis by (simp add: upload_contacts_def)
  next
    case (Cons r rest)
    obtain cs st1 where c: "createManyContacts st (map parse_row rows) = (cs, st1)"
      by (cases "createManyContacts st (map parse_row rows)")
    have "snd (upload_contacts st upl) = st \<or> snd (upload_contacts st upl) = st1"
      using Sheet Cons c
      by (simp add: upload_contacts_def validateContacts_def Let_def split: prod.splits)
    then show ?thesis using createManyContacts_frame [OF c] by auto
  qed
qed (simp_all add: upload_contacts_def)

lemma attach_contacts_frame:
  "attach_contacts st ids cid = (e, st') \<Longrightarrow>
     campaigns st' = campaigns st \<and> emailResults st' = emailResults st
   \<and> aiMessages st' = aiMessages st \<and> uuids_issued st' = uuids_issued st"
proof (induction ids arbitrary: st)
  case Nil
  then show ?case by simp
next
  case (Cons i rest)
  show ?case
  proof (cases "map_of (contacts st) i")
    case None
    with Cons.prems show ?thesis by (simp add: updateContact_def)
  next
    case (Some ct)
    with Cons.prems Cons.IH [of "st\<lparr>contacts := AList.update i (ct\<lparr>campaignId := Some cid\<rparr>) (contacts st)\<rparr>"]
    show ?thesis by (simp add: updateContact_def)
  qed
qed

lemma create_campaign_frame:
  "campaigns (snd (create_campaign st subj msg ids))
     = AList.update (uuids_issued st)
         \<lparr>campaign_id = uuids_issued st, subject = subj, message = msg,
          totalContacts = length ids, sentCount = 0, failedCount = 0, status = ''pending''\<rparr>
         (campaigns st)
   \<and> emailResults (snd (create_campaign st subj msg ids)) = emailResults st
   \<and> uuids_issued (snd (create_campaign st subj msg ids)) = Suc (uuids_issued st)"
proof -
  let ?c = "\<lparr>campaign_id = uuids_issued st, subject = subj, message = msg,
          totalContacts = length ids, sentCount = 0, failedCount = 0, status = ''pending''\<rparr>"
  let ?st1 = "st\<lparr>uuids_issued := Suc (uuids_issued st),
                 campaigns := AList.update (uuids_issued st) ?c (campaigns st)\<rparr>"
  obtain e st2 where a: "attach_contacts ?st1 ids (uuids_issued st) = (e, st2)"
    by (cases "attach_contacts ?st1 ids (uuids_issued st)")
  have "snd (create_campaign st subj msg ids) = st2"
    using a by (cases e) (simp_all add: create_campaign_def createCampaign_def randomUUID_def Let_def)
  then show ?thesis using attach_contacts_frame [OF a] by simp
qed

lemma ai_message_frame:
  "campaigns (snd (ai_message_route key st mtype idea reply)) = campaigns st
   \<and> emailResults (snd (ai_message_route key st mtype idea reply)) = emailResults st
   \<and> uuids_issued st \<le> uuids_issued (snd (ai_message_route key st mtype idea reply))"
  by (cases reply)
     (simp_all add: ai_message_route_def createAiMessage_def randomUUID_def Let_def)

lemma send_unconfigured:
  "send_campaign None st w d =
     (case getCampaign st d of
        None \<Rightarrow> (SendError 404 ''Campaign not found'', st, w)
      | Some cd \<Rightarrow>
          (SendError 503
             ''Email service not configured. Please add BREVO_API_KEY to environment variables.'',
           st\<lparr>campaigns := AList.update d (cd\<lparr>status := ''sending''\<rparr>) (campaigns st)\<rparr>, w))"
  by (simp add: send_campaign_def updateCampaign_def getCampaign_def Let_def split: option.splits)

lemma keys_bounded_mono:
  "list_all (\<lambda>k. k < n) ks \<Longrightarrow> n \<le> m \<Longrightarrow> list_all (\<lambda>k. k < (m::nat)) ks"
  by (auto simp: list_all_iff)

lemma serve_keeps_sending:
  assumes "stays_sending cid c st"
  shows "stays_sending cid c (fst (serve None key (st, w) rq))"
proof -
  have b: "list_all (\<lambda>k. k < uuids_issued st) (map fst (campaigns st))"
    and g: "map_of (campaigns st) cid = Some (c\<lparr>status := ''sending''\<rparr>)"
    using assms by (simp_all add: stays_sending_def getCampaign_def)
  have cid_lt: "cid < uuids_issued st"
  proof -
    from g have "cid \<in> fst ` set (campaigns st)" by (metis map_of_eq_None_iff option.distinct(1))
    then show ?thesis using b by (auto simp: list_all_iff)
  qed
  show ?thesis
  proof (cases rq)
    case (UploadContacts upl)
    then show ?thesis
      using upload_frame [of st upl] b g keys_bounded_mono
      by (auto simp: stays_sending_def getCampaign_def)
  next
    case (CreateCampaign subj msg ids)
    have "list_all (\<lambda>k. k < Suc (uuids_issued st))
            (map fst (AList.update (uuids_issued st)
               \<lparr>campaign_id = uuids_issued st, subject = subj, message = msg,
                totalContacts = length ids, sentCount = 0, failedCount = 0, status = ''pending''\<rparr>
               (campaigns st)))"
      using b by (auto simp: list_all_iff update_keys)
    then show ?thesis
      using CreateCampaign create_campaign_frame [of st subj msg ids] g cid_lt
      by (simp add: stays_sending_def getCampaign_def update_conv')
  next
    case (SendCampaign d)
    show ?thesis
    proof (cases "map_of (campaigns st) d")
      case None
      then show ?thesis using SendCampaign assms
        by (simp add: send_unconfigured getCampaign_def)
    next
      case (Some cd)
      have k: "list_all (\<lambda>k. k < uuids_issued st)
                 (map fst (AList.update d (cd\<lparr>status := ''sending''\<rparr>) (campaigns st)))"
      proof -
        from Some have "d \<in> fst ` set (campaigns st)" by (metis map_of_eq_None_iff option.distinct(1))
        then show ?thesis using b by (simp add: update_keys)
      qed
      show ?thesis
      proof (cases "d = cid")
        case True
        have cd: "cd = c\<lparr>status := ''sending''\<rparr>" using Some g True by simp
        have idem: "cd\<lparr>status := ''sending''\<rparr> = cd" by (simp add: cd)
        show ?thesis using SendCampaign Some k True
          by (simp add: send_unconfigured getCampaign_def stays_sending_def update_conv' idem cd)
      next
        case False
        then show ?thesis using SendCampaign Some g k
          by (simp add: send_unconfigured getCampaign_def stays_sending_def update_conv')
      qed
    qed
  next
    case (GetResults d)
    then show ?thesis using assms by simp
  next
    case (AiMessage mtype idea reply)
    then show ?thesis
      using ai_message_frame [of key st mtype idea reply] b g keys_bounded_mono
      by (auto simp: stays_sending_def getCampaign_def)
  qed
qed

lemma serve_all_keeps_sending:
  "stays_sending cid c (fst s) \<Longrightarrow> stays_sending cid c (fst (serve_all None key s rqs))"
proof (induction rqs arbitrary: s)
  case Nil
  then show ?case by simp
next
  case (Cons rq rest)
  obtain st w where s: "s = (st, w)" by (cases s)
  have "stays_sending cid c (fst (serve None key s rq))"
    using serve_keeps_sending [of cid c st key w rq] Cons.prems s by simp
  from Cons.IH [OF this] show ?case by simp
qed

text \<open>
  C10. Without the email credential, a dispatch of an existing campaign answers 503
  and leaves the store changed: the campaign is stored with status \<open>sending\<close>, its
  counters and everything else as before. Whatever requests follow while the
  credential is absent (uploads, new campaigns, further dispatches of any campaign,
  result queries, message generation), the campaign stays stored with status
  \<open>sending\<close> and the same counters.
\<close>

theorem C10_unconfigured_dispatch:
  assumes "store_wf st" and "getCampaign st cid = Some c"
  shows "send_campaign None st w cid
           = (SendError 503
                ''Email service not configured. Please add BREVO_API_KEY to environment variables.'',
              st\<lparr>campaigns := AList.update cid (c\<lparr>status := ''sending''\<rparr>) (campaigns st)\<rparr>, w)
       \<and> getCampaign (fst (snd (send_campaign None st w cid))) cid
           = Some (c\<lparr>status := ''sending''\<rparr>)
       \<and> (\<forall>key requests.
             getCampaign
               (fst (serve_all None key (snd (send_campaign None st w cid)) requests)) cid
             = Some (c\<lparr>status := ''sending''\<rparr>))"
proof -
  let ?st1 = "st\<lparr>campaigns := AList.update cid (c\<lparr>status := ''sending''\<rparr>) (campaigns st)\<rparr>"
  have run: "send_campaign None st w cid
           = (SendError 503
                ''Email service not configured. Please add BREVO_API_KEY to environment variables.'',
              ?st1, w)"
    using assms(2) by (simp add: send_unconfigured)
  have g: "getCampaign ?st1 cid = Some (c\<lparr>status := ''sending''\<rparr>)"
    by (simp add: getCampaign_def update_conv')
  have "cid \<in> fst ` set (campaigns st)"
    using assms(2) by (metis getCampaign_def map_of_eq_None_iff option.distinct(1))
  then have "list_all (\<lambda>k. k < uuids_issued ?st1) (map fst (campaigns ?st1))"
    using assms(1) by (simp add: store_wf_def update_keys)
  then have inv: "stays_sending cid c (fst (snd (send_campaign None st w cid)))"
    using g run by (simp add: stays_sending_def)
  have "getCampaign (fst (serve_all None key (snd (send_campaign None st w cid)) requests)) cid
             = Some (c\<lparr>status := ''sending''\<rparr>)" for key requests
    using serve_all_keeps_sending [OF inv, of key requests] by (simp add: stays_sending_def)
  then show ?thesis using run g by simp
qed


theorem C10_unconfigured_dispatch_witness:
  "store_wf example_store
   \<and> getCampaign example_store 4 = Some example_campaign
   \<and> send_campaign None example_store (0::nat) 4
       = (SendError 503
            ''Email service not configured. Please add BREVO_API_KEY to environment variables.'',
          example_store\<lparr>campaigns :=
            AList.update 4 (example_campaign\<lparr>status := ''sending''\<rparr>)
              (campaigns example_store)\<rparr>, 0)
   \<and> getCampaign
         (fst (serve_all None True (snd (send_campaign None example_store (0::nat) 4))
                 [CreateCampaign ''Offer'' ''Dear {name}'' [0], SendCampaign 4,
                  UploadContacts (Sheet example_rows), SendCampaign 5])) 4
       = Some (example_campaign\<lparr>status := ''sending''\<rparr>)
   \<and> example_campaign\<lparr>status := ''sending''\<rparr>
       = \<lparr>campaign_id = 4, subject = ''Hi {name}'', message = ''Dear {name}'',
          totalContacts = 4, sentCount = 0, failedCount = 0, status = ''sending''\<rparr>"
proof -
  have h1: "store_wf example_store" by code_simp
  have h2: "getCampaign example_store 4 = Some example_campaign" by code_simp
  have e: "example_campaign\<lparr>status := ''sending''\<rparr>
       = \<lparr>campaign_id = 4, subject = ''Hi {name}'', message = ''Dear {name}'',
               totalContacts = 4, sentCount = 0, failedCount = 0, status = ''sending''\<rparr>"
    by (simp add: example_campaign_def)
  from C10_unconfigured_dispatch [OF h1 h2, of 0] h1 h2 e show ?thesis by blast
qed

section \<open>Stores reached by requests\<close>

text \<open>The keys of a new store, and of every store reached from it by requests, all
  came from \<open>randomUUID\<close>: each route keeps this.\<close>

lemma keys_update:
  "list_all (\<lambda>k. k < n) (map fst xs) \<Longrightarrow> i < m \<Longrightarrow> n \<le> m \<Longrightarrow>
   list_all (\<lambda>k. k < (m::nat)) (map fst (AList.update i v xs))"
  by (auto simp: list_all_iff update_keys)

lemma key_of_entry:
  "list_all (\<lambda>k. k < n) (map fst xs) \<Longrightarrow> map_of xs i = Some v \<Longrightarrow> i < (n::nat)"
proof -
  assume b: "list_all (\<lambda>k. k < n) (map fst xs)" and m: "map_of xs i = Some v"
  from m have "(i, v) \<in> set xs" by (rule map_of_SomeD)
  then have "i \<in> set (map fst xs)" by force
  with b show "i < n" by (auto simp: list_all_iff)
qed

lemma store_wf_new_storage: "store_wf new_storage"
  by (simp add: store_wf_def new_storage_def)

lemma store_wf_createContact: "store_wf st \<Longrightarrow> store_wf (snd (createContact st ins))"
  by (simp add: store_wf_def createContact_def randomUUID_def Let_def)
     (auto intro: keys_update keys_bounded_mono)

lemma store_wf_createManyContacts:
  "store_wf st \<Longrightarrow> store_wf (snd (createManyContacts st inss))"
proof (induction inss arbitrary: st)
  case Nil
  then show ?case by simp
next
  case (Cons ins rest)
  have "store_wf (snd (createContact st ins))" using Cons.prems by (rule store_wf_createContact)
  then have "store_wf (snd (createManyContacts (snd (createContact st ins)) rest))"
    by (rule Cons.IH)
  then show ?case by (simp add: split_beta Let_def)
qed

lemma store_wf_upload: "store_wf st \<Longrightarrow> store_wf (snd (upload_contacts st upl))"
proof (cases upl)
  case (Sheet rows)
  assume wf: "store_wf st"
  have "snd (upload_contacts st upl) = st
        \<or> snd (upload_contacts st upl) = snd (createManyContacts st (map parse_row rows))"
    using Sheet
    by (simp add: upload_contacts_def validateContacts_def Let_def split_beta split: list.splits)
  then show ?thesis using wf store_wf_createManyContacts [OF wf, of "map parse_row rows"] by auto
qed (simp_all add: upload_contacts_def)

lemma store_wf_updateContact:
  assumes "store_wf st" and "updateContact st i f = Inr (c, st')"
  shows "store_wf st'"
proof (cases "map_of (contacts st) i")
  case None
  then show ?thesis using assms(2) by (simp add: updateContact_def)
next
  case (Some c0)
  have "i < uuids_issued st" using assms(1) Some by (auto simp: store_wf_def intro: key_of_entry)
  moreover have "st' = st\<lparr>contacts := AList.update i (f c0) (contacts st)\<rparr>"
    using assms(2) Some by (auto simp: updateContact_def)
  ultimately show ?thesis using assms(1)
    by (simp add: store_wf_def) (auto intro: keys_update)
qed

lemma store_wf_attach:
  "store_wf st \<Longrightarrow> store_wf (snd (attach_contacts st ids cid))"
proof (induction ids arbitrary: st)
  case Nil
  then show ?case by simp
next
  case (Cons i rest)
  show ?case
  proof (cases "updateContact st i (\<lambda>c. c\<lparr>campaignId := Some cid\<rparr>)")
    case (Inl e)
    then show ?thesis using Cons.prems by simp
  next
    case (Inr p)
    obtain c st1 where p: "p = (c, st1)" by (cases p)
    have "store_wf st1" using Cons.prems Inr p by (auto intro: store_wf_updateContact)
    then show ?thesis using Cons.IH Inr p by simp
  qed
qed

lemma store_wf_createCampaign: "store_wf st \<Longrightarrow> store_wf (snd (createCampaign st ins))"
  by (simp add: store_wf_def createCampaign_def randomUUID_def Let_def)
     (auto intro: keys_update keys_bounded_mono)

lemma store_wf_create_campaign:
  "store_wf st \<Longrightarrow> store_wf (snd (create_campaign st subj msg ids))"
proof -
  assume wf: "store_wf st"
  let ?ins = "\<lparr>ins_subject = subj, ins_message = msg,
                ins_totalContacts = Some (length ids),
                ins_sentCount = Some 0, ins_failedCount = Some 0,
                ins_status = Some ''pending''\<rparr>"
  let ?p = "createCampaign st ?ins"
  have "store_wf (snd (attach_contacts (snd ?p) ids (campaign_id (fst ?p))))"
    using store_wf_createCampaign [OF wf] by (rule store_wf_attach)
  then show ?thesis
    by (simp add: create_campaign_def Let_def split_beta split: prod.splits option.splits)
qed

lemma store_wf_updateCampaign:
  assumes "store_wf st" and "updateCampaign st i f = Inr (c, st')"
  shows "store_wf st'"
proof (cases "map_of (campaigns st) i")
  case None
  then show ?thesis using assms(2) by (simp add: updateCampaign_def)
next
  case (Some c0)
  have "i < uuids_issued st" using assms(1) Some by (auto simp: store_wf_def intro: key_of_entry)
  moreover have "st' = st\<lparr>campaigns := AList.update i (f c0) (campaigns st)\<rparr>"
    using assms(2) Some by (auto simp: updateCampaign_def)
  ultimately show ?thesis using assms(1)
    by (simp add: store_wf_def) (auto intro: keys_update)
qed

lemma store_wf_createEmailResult:
  "store_wf st \<Longrightarrow> store_wf (snd (createEmailResult st ins))"
  by (simp add: store_wf_def createEmailResult_def randomUUID_def Let_def)
     (auto intro: keys_update keys_bounded_mono)

lemma store_wf_send_loop:
  "store_wf st \<Longrightarrow> send_loop api c cid cts s f st w = (s', f', st', w') \<Longrightarrow> store_wf st'"
proof (induction cts arbitrary: s f st w)
  case Nil
  then show ?case by simp
next
  case (Cons ct rest)
  obtain out w1 where a: "api w (build_request c ct) = (out, w1)"
    by (cases "api w (build_request c ct)")
  show ?case
  proof (cases out)
    case Delivered
    let ?ins = "\<lparr>ins_result_campaignId = cid, ins_result_contactId = contact_id ct,
                  ins_result_email = email ct, ins_result_status = ''sent'',
                  ins_result_error = None\<rparr>"
    have "store_wf (snd (createEmailResult st ?ins))"
      using Cons.prems(1) by (rule store_wf_createEmailResult)
    moreover have "send_loop api c cid rest (Suc s) f (snd (createEmailResult st ?ins)) w1
                     = (s', f', st', w')"
      using Cons.prems(2) a Delivered by (simp add: split_beta)
    ultimately show ?thesis by (rule Cons.IH)
  next
    case (Thrown err)
    let ?ins = "\<lparr>ins_result_campaignId = cid, ins_result_contactId = contact_id ct,
                  ins_result_email = email ct, ins_result_status = ''failed'',
                  ins_result_error =
                    Some (case err of Some m \<Rightarrow> m | None \<Rightarrow> ''Unknown error'')\<rparr>"
    have "store_wf (snd (createEmailResult st ?ins))"
      using Cons.prems(1) by (rule store_wf_createEmailResult)
    moreover have "send_loop api c cid rest s (Suc f) (snd (createEmailResult st ?ins)) w1
                     = (s', f', st', w')"
      using Cons.prems(2) a Thrown by (simp add: split_beta)
    ultimately show ?thesis by (rule Cons.IH)
  qed
qed

lemma store_wf_send:
  assumes "store_wf st"
  shows "store_wf (fst (snd (send_campaign brevoApi st w cid)))"
proof (cases "getCampaign st cid")
  case None
  then show ?thesis using assms by (simp add: send_campaign_def)
next
  case (Some c)
  then have m: "map_of (campaigns st) cid = Some c" by (simp add: getCampaign_def)
  let ?st1 = "st\<lparr>campaigns := AList.update cid (c\<lparr>status := ''sending''\<rparr>) (campaigns st)\<rparr>"
  have u: "updateCampaign st cid (\<lambda>x. x\<lparr>status := ''sending''\<rparr>)
             = Inr (c\<lparr>status := ''sending''\<rparr>, ?st1)"
    using m by (simp add: updateCampaign_def)
  have wf1: "store_wf ?st1" using assms u by (rule store_wf_updateCampaign)
  show ?thesis
  proof (cases brevoApi)
    case None
    then show ?thesis using Some u wf1 by (simp add: send_campaign_def Let_def)
  next
    case (Some api)
    let ?valid = "filter isValid (getContactsByCampaign ?st1 cid)"
    obtain s' f' st2 w2 where l: "send_loop api c cid ?valid 0 0 ?st1 w = (s', f', st2, w2)"
      by (cases "send_loop api c cid ?valid 0 0 ?st1 w") auto
    have wf2: "store_wf st2" using wf1 l by (rule store_wf_send_loop)
    show ?thesis
    proof (cases "updateCampaign st2 cid
                    (\<lambda>x. x\<lparr>status := ''completed'', sentCount := s', failedCount := f'\<rparr>)")
      case (Inl e)
      then show ?thesis using \<open>getCampaign st cid = Some c\<close> u Some l wf2
        by (simp add: send_campaign_def Let_def)
    next
      case (Inr p)
      obtain c3 st3 where p: "p = (c3, st3)" by (cases p)
      have "store_wf st3" using wf2 Inr p by (auto intro: store_wf_updateCampaign)
      then show ?thesis using \<open>getCampaign st cid = Some c\<close> u Some l Inr p
        by (simp add: send_campaign_def Let_def)
    qed
  qed
qed

lemma store_wf_createAiMessage: "store_wf st \<Longrightarrow> store_wf (snd (createAiMessage st ins))"
  by (simp add: store_wf_def createAiMessage_def randomUUID_def Let_def)
     (auto intro: keys_update keys_bounded_mono)

lemma store_wf_ai_message:
  "store_wf st \<Longrightarrow> store_wf (snd (ai_message_route key st mtype idea reply))"
  by (cases reply)
     (simp_all add: ai_message_route_def Let_def split_beta store_wf_createAiMessage)

lemma store_wf_serve:
  "store_wf st \<Longrightarrow> store_wf (fst (serve brevoApi key (st, w) rq))"
  by (cases rq)
     (simp_all add: store_wf_upload store_wf_create_campaign store_wf_send store_wf_ai_message)

lemma store_wf_serve_all:
  "store_wf (fst s) \<Longrightarrow> store_wf (fst (serve_all brevoApi key s rqs))"
proof (induction rqs arbitrary: s)
  case Nil
  then show ?case by simp
next
  case (Cons rq rest)
  obtain st w where s: "s = (st, w)" by (cases s)
  have "store_wf (fst (serve brevoApi key s rq))" using Cons.prems s by (simp add: store_wf_serve)
  then show ?case using Cons.IH by simp
qed

lemma store_wf_reachable:
  "store_wf (fst (serve_all brevoApi key (new_storage, w) rqs))"
  by (rule store_wf_serve_all) (simp add: store_wf_new_storage)

section \<open>Validity flags and the store\<close>

lemma update_keeps_all:
  "list_all P (map snd al) \<Longrightarrow> P v \<Longrightarrow> list_all P (map snd (AList.update k v al))"
  by (induction al) auto

lemma createManyContacts_invalid:
  "all_invalid st \<Longrightarrow> list_all (\<lambda>ins. ins_isValid ins = Some False) inss \<Longrightarrow>
   createManyContacts st inss = (cs, st') \<Longrightarrow> all_invalid st'"
proof (induction inss arbitrary: st cs st')
  case Nil
  then show ?case by simp
next
  case (Cons ins rest)
  let ?n = "uuids_issued st"
  let ?st1 = "st\<lparr>uuids_issued := Suc ?n,
         contacts := AList.update ?n (mk_contact ?n ins) (contacts st)\<rparr>"
  obtain cs2 st2 where r: "createManyContacts ?st1 rest = (cs2, st2)"
    by (cases "createManyContacts ?st1 rest")
  from Cons.prems(3) r have e: "st' = st2" by (auto simp: createContact_eq)
  have "\<not> isValid (mk_contact ?n ins)" using Cons.prems(2) by (simp add: mk_contact_def)
  then have "all_invalid ?st1"
    using Cons.prems(1) update_keeps_all [of "\<lambda>c. \<not> isValid c" "contacts st"]
    by (simp add: all_invalid_def)
  from Cons.IH [OF this _ r] Cons.prems(2) e show ?case by simp
qed

lemma upload_keeps_invalid:
  "all_invalid st \<Longrightarrow> all_invalid (snd (upload_contacts st upl))"
proof (cases upl)
  case (Sheet rows)
  assume a: "all_invalid st"
  show ?thesis
  proof (cases rows)
    case Nil
    with Sheet a show ?thesis by (simp add: upload_contacts_def)
  next
    case (Cons r rest)
    obtain cs st1 where c: "createManyContacts st (map parse_row rows) = (cs, st1)"
      by (cases "createManyContacts st (map parse_row rows)")
    have p: "list_all (\<lambda>ins. ins_isValid ins = Some False) (map parse_row rows)"
      by (simp add: list_all_iff parse_row_def)
    have "snd (upload_contacts st upl) = st \<or> snd (upload_contacts st upl) = st1"
      using Sheet Cons c
      by (simp add: upload_contacts_def validateContacts_def Let_def split: prod.splits)
    then show ?thesis using createManyContacts_invalid [OF a p c] a by auto
  qed
qed (simp_all add: upload_contacts_def)

lemma attach_contacts_invalid:
  "attach_contacts st ids cid = (e, st') \<Longrightarrow> all_invalid st \<Longrightarrow> all_invalid st'"
proof (induction ids arbitrary: st)
  case Nil
  then show ?case by simp
next
  case (Cons i rest)
  show ?case
  proof (cases "map_of (contacts st) i")
    case None
    with Cons.prems show ?thesis by (simp add: updateContact_def)
  next
    case (Some ct)
    let ?st1 = "st\<lparr>contacts := AList.update i (ct\<lparr>campaignId := Some cid\<rparr>) (contacts st)\<rparr>"
    have "ct \<in> set (map snd (contacts st))"
      using Some by (metis map_of_SomeD set_zip_rightD zip_map_fst_snd)
    then have "\<not> isValid ct" using Cons.prems(2) by (auto simp: all_invalid_def list_all_iff)
    then have "all_invalid ?st1"
      using Cons.prems(2) update_keeps_all [of "\<lambda>c. \<not> isValid c" "contacts st"]
      by (simp add: all_invalid_def)
    moreover have "attach_contacts ?st1 rest cid = (e, st')"
      using Cons.prems(1) Some by (simp add: updateContact_def)
    ultimately show ?thesis using Cons.IH by blast
  qed
qed

lemma attach_contacts_keeps:
  "attach_contacts st ids cid = (e, st') \<Longrightarrow>
   map_of (contacts st) i = Some ct \<Longrightarrow> campaignId ct = Some cid \<Longrightarrow>
   \<exists>ct'. map_of (contacts st') i = Some ct' \<and> campaignId ct' = Some cid"
proof (induction ids arbitrary: st ct)
  case Nil
  then show ?case by simp
next
  case (Cons j rest)
  show ?case
  proof (cases "map_of (contacts st) j")
    case None
    with Cons.prems show ?thesis by (simp add: updateContact_def)
  next
    case (Some cj)
    let ?st1 = "st\<lparr>contacts := AList.update j (cj\<lparr>campaignId := Some cid\<rparr>) (contacts st)\<rparr>"
    have run: "attach_contacts ?st1 rest cid = (e, st')"
      using Cons.prems(1) Some by (simp add: updateContact_def)
    have "\<exists>ct1. map_of (contacts ?st1) i = Some ct1 \<and> campaignId ct1 = Some cid"
      using Cons.prems(2,3) by (simp add: update_conv')
    then show ?thesis using Cons.IH [OF run] by blast
  qed
qed

lemma attach_contacts_attached:
  "attach_contacts st ids cid = (None, st') \<Longrightarrow>
   \<forall>i \<in> set ids. \<exists>ct. map_of (contacts st') i = Some ct \<and> campaignId ct = Some cid"
proof (induction ids arbitrary: st)
  case Nil
  then show ?case by simp
next
  case (Cons j rest)
  show ?case
  proof (cases "map_of (contacts st) j")
    case None
    with Cons.prems show ?thesis by (simp add: updateContact_def)
  next
    case (Some cj)
    let ?st1 = "st\<lparr>contacts := AList.update j (cj\<lparr>campaignId := Some cid\<rparr>) (contacts st)\<rparr>"
    have run: "attach_contacts ?st1 rest cid = (None, st')"
      using Cons.prems(1) Some by (simp add: updateContact_def)
    have "map_of (contacts ?st1) j = Some (cj\<lparr>campaignId := Some cid\<rparr>)"
      by (simp add: update_conv')
    then have "\<exists>ct. map_of (contacts st') j = Some ct \<and> campaignId ct = Some cid"
      using attach_contacts_keeps [OF run] by simp
    then show ?thesis using Cons.IH [OF run] by simp
  qed
qed

lemma send_nothing_valid:
  assumes "all_invalid st" and "getCampaign st cid = Some c"
  shows "send_campaign (Some api) st w cid
           = (SendOk 0 0 0,
              st\<lparr>campaigns := AList.update cid
                    (c\<lparr>status := ''completed'', sentCount := 0, failedCount := 0\<rparr>)
                    (campaigns st)\<rparr>, w)"
proof -
  have "filter isValid (getContactsByCampaign st cid) = []"
    using assms(1) by (auto simp: all_invalid_def list_all_iff getContactsByCampaign_def filter_empty_conv)
  then have v: "filter isValid
           (getContactsByCampaign
              (st\<lparr>campaigns := AList.update cid (c\<lparr>status := ''sending''\<rparr>) (campaigns st)\<rparr>) cid) = []"
    by (simp add: getContactsByCampaign_def)
  show ?thesis
    using assms(2) v
    by (simp add: send_campaign_def updateCampaign_def getCampaign_def Let_def update_conv')
qed

lemma filter_snd_zip:
  "length xs = length ys \<Longrightarrow>
   length (filter (\<lambda>p. P (snd p)) (zip xs ys)) = length (filter P ys)"
  by (induction xs ys rule: list_induct2) auto

lemma valid_count:
  "length (filter isValid
     (map (\<lambda>(i, row). (mk_contact (n + i) (parse_row row))
                       \<lparr>isValid := rx_whole emailRegex (ins_email (parse_row row))\<rparr>)
          (zip [0..<length rows] rows)))
   = length (filter (\<lambda>row. rx_whole emailRegex (ins_email (parse_row row))) rows)"
proof -
  have "length (filter isValid
     (map (\<lambda>(i, row). (mk_contact (n + i) (parse_row row))
                       \<lparr>isValid := rx_whole emailRegex (ins_email (parse_row row))\<rparr>)
          (zip [0..<length rows] rows)))
     = length (filter (\<lambda>p. rx_whole emailRegex (ins_email (parse_row (snd p))))
                 (zip [0..<length rows] rows))"
    by (simp add: filter_map comp_def case_prod_unfold)
  also have "\<dots> = length (filter (\<lambda>row. rx_whole emailRegex (ins_email (parse_row row))) rows)"
    by (rule filter_snd_zip) simp
  finally show ?thesis .
qed


lemma all_invalid_lookup:
  "all_invalid st \<Longrightarrow> map_of (contacts st) i = Some ct \<Longrightarrow> \<not> isValid ct"
proof -
  assume a: "all_invalid st" and m: "map_of (contacts st) i = Some ct"
  have "ct \<in> set (map snd (contacts st))"
    using m by (metis map_of_SomeD set_zip_rightD zip_map_fst_snd)
  then show ?thesis using a by (auto simp: all_invalid_def list_all_iff)
qed

lemma upload_ok_rows:
  assumes "upload_contacts st (Sheet rows) = (UploadOk preview n_total valid invalid ids, st1)"
  shows "\<exists>r rest. rows = r # rest \<and> required_columns r"
proof (cases rows)
  case Nil
  with assms show ?thesis by (simp add: upload_contacts_def)
next
  case (Cons r rest)
  have "required_columns r"
  proof (rule ccontr)
    assume "\<not> required_columns r"
    then have "fst (upload_contacts st (Sheet rows))
         = UploadError 400
             ''Required columns missing. File must contain 'Name' and 'Email' columns.''"
      using Cons by (auto simp: upload_contacts_def required_columns_def Let_def)
    with assms show False by simp
  qed
  with Cons show ?thesis by simp
qed

lemma create_campaign_ok:
  assumes "create_campaign st subj msg ids = (CampaignOk c, st2)"
  shows "c = \<lparr>campaign_id = uuids_issued st, subject = subj, message = msg,
              totalContacts = length ids, sentCount = 0, failedCount = 0, status = ''pending''\<rparr>
       \<and> attach_contacts
           (st\<lparr>uuids_issued := Suc (uuids_issued st),
               campaigns := AList.update (uuids_issued st) c (campaigns st)\<rparr>)
           ids (uuids_issued st) = (None, st2)"
proof -
  let ?c = "\<lparr>campaign_id = uuids_issued st, subject = subj, message = msg,
          totalContacts = length ids, sentCount = 0, failedCount = 0, status = ''pending''\<rparr>"
  let ?st1 = "st\<lparr>uuids_issued := Suc (uuids_issued st),
                 campaigns := AList.update (uuids_issued st) ?c (campaigns st)\<rparr>"
  obtain e st' where a: "attach_contacts ?st1 ids (uuids_issued st) = (e, st')"
    by (cases "attach_contacts ?st1 ids (uuids_issued st)")
  show ?thesis
    using assms a
    by (cases e) (simp_all add: create_campaign_def createCampaign_def randomUUID_def Let_def)
qed

text \<open>
  C9. \<open>validateContacts\<close> returns the contacts with the computed flag and leaves the
  store as it is. So on a store in which no contact is stored as valid (the store of
  a new process, for one), after an upload that succeeds no contact is stored as
  valid, the uploaded ones included, while the response counts the rows whose email
  matches the expression; and when a campaign is created for the returned identifiers
  and dispatched with the credential configured, the uploaded contacts are attached
  to it, none passes the validity filter, the provider is not called, no email result
  is created and the response is 0 sent, 0 failed, 0 in total.
\<close>

theorem C9_validity_not_stored:
  assumes "all_invalid st"
      and "upload_contacts st (Sheet rows) = (UploadOk preview n_total valid invalid ids, st1)"
      and "create_campaign st1 subj msg ids = (CampaignOk c, st2)"
  shows "snd (validateContacts st0 cs) = st0
       \<and> valid = length (filter (\<lambda>row. rx_whole emailRegex (ins_email (parse_row row))) rows)
       \<and> all_invalid st1
       \<and> (\<forall>i \<in> set ids. \<exists>ct. getContact st1 i = Some ct \<and> \<not> isValid ct)
       \<and> (\<forall>i \<in> set ids. \<exists>ct. getContact st2 i = Some ct
                               \<and> campaignId ct = Some (campaign_id c) \<and> \<not> isValid ct)
       \<and> filter isValid (getContactsByCampaign st2 (campaign_id c)) = []
       \<and> (\<exists>st3. send_campaign (Some api) st2 w (campaign_id c) = (SendOk 0 0 0, st3, w)
                 \<and> emailResults st3 = emailResults st2)"
proof -
  obtain r rest where rr: "rows = r # rest" "required_columns r"
    using upload_ok_rows [OF assms(2)] by blast
  let ?n = "uuids_issued st"
  obtain validated st' where u:
    "upload_contacts st (Sheet rows)
             = (UploadOk (take 10 validated) (length rows)
                  (length (filter isValid validated))
                  (length rows - length (filter isValid validated))
                  [?n..<?n + length rows], st')"
    "validated = map (\<lambda>(i, row). (mk_contact (?n + i) (parse_row row))
                       \<lparr>isValid := rx_whole emailRegex (ins_email (parse_row row))\<rparr>)
                 (zip [0..<length rows] rows)"
    "\<forall>i < length rows. getContact st' (?n + i)
                 = Some (mk_contact (?n + i) (parse_row (rows ! i)))"
    using upload_success [OF rr, of st] by blast
  from u(1) assms(2) have eq: "valid = length (filter isValid validated)"
    "ids = [?n..<?n + length rows]" "st1 = st'" by simp_all
  have v: "valid = length (filter (\<lambda>row. rx_whole emailRegex (ins_email (parse_row row))) rows)"
    using eq(1) u(2) valid_count [of ?n rows] by simp
  have inv1: "all_invalid st1"
    using upload_keeps_invalid [OF assms(1), of "Sheet rows"] assms(2) by simp
  have stored1: "\<forall>i \<in> set ids. \<exists>ct. getContact st1 i = Some ct \<and> \<not> isValid ct"
  proof
    fix i assume "i \<in> set ids"
    then have b: "?n \<le> i" "i < ?n + length rows" using eq(2) by simp_all
    then have k: "i - ?n < length rows" and ik: "?n + (i - ?n) = i" by arith+
    from u(3) k have "getContact st' (?n + (i - ?n))
        = Some (mk_contact (?n + (i - ?n)) (parse_row (rows ! (i - ?n))))"
      by blast
    then obtain ct where g: "getContact st1 i = Some ct" unfolding ik eq(3) by blast
    then have "\<not> isValid ct" using all_invalid_lookup [OF inv1] by (simp add: getContact_def)
    with g show "\<exists>ct. getContact st1 i = Some ct \<and> \<not> isValid ct" by blast
  qed
  let ?st1' = "st1\<lparr>uuids_issued := Suc (uuids_issued st1),
                    campaigns := AList.update (uuids_issued st1) c (campaigns st1)\<rparr>"
  have cc: "campaign_id c = uuids_issued st1"
    and at: "attach_contacts ?st1' ids (uuids_issued st1) = (None, st2)"
    using create_campaign_ok [OF assms(3)] by auto
  have "all_invalid ?st1'" using inv1 by (simp add: all_invalid_def)
  then have inv2: "all_invalid st2" using attach_contacts_invalid [OF at] by simp
  have stored2: "\<forall>i \<in> set ids. \<exists>ct. getContact st2 i = Some ct
                               \<and> campaignId ct = Some (campaign_id c) \<and> \<not> isValid ct"
  proof
    fix i assume "i \<in> set ids"
    then obtain ct where g: "map_of (contacts st2) i = Some ct" "campaignId ct = Some (uuids_issued st1)"
      using attach_contacts_attached [OF at] by blast
    then show "\<exists>ct. getContact st2 i = Some ct
                               \<and> campaignId ct = Some (campaign_id c) \<and> \<not> isValid ct"
      using all_invalid_lookup [OF inv2 g(1)] cc by (simp add: getContact_def)
  qed
  have gc: "getCampaign st2 (campaign_id c) = Some c"
    using attach_contacts_frame [OF at] cc by (simp add: getCampaign_def update_conv')
  have none: "filter isValid (getContactsByCampaign st2 (campaign_id c)) = []"
    using inv2 by (auto simp: all_invalid_def list_all_iff getContactsByCampaign_def filter_empty_conv)
  have send: "\<exists>st3. send_campaign (Some api) st2 w (campaign_id c) = (SendOk 0 0 0, st3, w)
                 \<and> emailResults st3 = emailResults st2"
    using send_nothing_valid [OF inv2 gc, of api w] by simp
  have fr: "snd (validateContacts st0 cs) = st0" by (simp add: validateContacts_def)
  show ?thesis
    by (intro conjI) (rule fr, rule v, rule inv1, rule stored1, rule stored2, rule none, rule send)
qed

lemma example_upload:
  "upload_contacts new_storage (Sheet example_rows)
   = (UploadOk
        [\<lparr>contact_id = 0, name = ''Ann'', email = ''ann@example.com'', isValid = True,
          campaignId = None\<rparr>,
         \<lparr>contact_id = 1, name = ''Bob'', email = ''bob-at-example.com'', isValid = False,
          campaignId = None\<rparr>,
         \<lparr>contact_id = 2, name = ''Cy'', email = ''cy@example.org'', isValid = True,
          campaignId = None\<rparr>]
        3 2 1 [0, 1, 2],
      store_after_upload)"
  by code_simp

lemma example_create_campaign:
  "create_campaign store_after_upload ''Hi {name}'' ''Dear {name}'' [0, 1, 2]
   = (CampaignOk uploaded_campaign, store_after_campaign)"
  by code_simp

theorem C9_validity_not_stored_witness:
  "all_invalid new_storage
   \<and> upload_contacts new_storage (Sheet example_rows)
     = (UploadOk
        [\<lparr>contact_id = 0, name = ''Ann'', email = ''ann@example.com'', isValid = True,
          campaignId = None\<rparr>,
         \<lparr>contact_id = 1, name = ''Bob'', email = ''bob-at-example.com'', isValid = False,
          campaignId = None\<rparr>,
         \<lparr>contact_id = 2, name = ''Cy'', email = ''cy@example.org'', isValid = True,
          campaignId = None\<rparr>]
        3 2 1 [0, 1, 2],
      store_after_upload)
   \<and> create_campaign store_after_upload ''Hi {name}'' ''Dear {name}'' [0, 1, 2]
     = (CampaignOk uploaded_campaign, store_after_campaign)
   \<and> all_invalid store_after_upload
   \<and> filter isValid (getContactsByCampaign store_after_campaign (campaign_id uploaded_campaign))
     = []
   \<and> (\<exists>st3. send_campaign (Some second_send_fails) store_after_campaign 0
                (campaign_id uploaded_campaign)
              = (SendOk 0 0 0, st3, 0)
            \<and> emailResults st3 = emailResults store_after_campaign)"
proof -
  have h1: "all_invalid new_storage" by (simp add: all_invalid_def new_storage_def)
  from h1 example_upload example_create_campaign
       C9_validity_not_stored [OF h1 example_upload example_create_campaign,
                                of new_storage "[]" second_send_fails 0]
  show ?thesis by blast
qed

section \<open>Message generation: the length limit\<close>

lemma ai_message_route_fields:
  "\<exists>m cv st'.
     ai_message_route True st mtype idea (CompletionJson content) = (AiOk m cv, st') \<and>
     generatedMessage m = enforce_limit mtype (or_else content []) \<and>
     characterCount m = length (generatedMessage m) \<and>
     cv = check_compliance mtype (generatedMessage m) \<and>
     isCompliant m = compliant cv \<and>
     getAiMessage st' (ai_message_id m) = Some m"
  by (simp add: ai_message_route_def createAiMessage_def randomUUID_def Let_def
      getAiMessage_def update_conv')

lemma withinLimit_sms:
  "withinLimit (check_compliance ''sms'' msg) = (length msg \<le> 160)"
  by (simp add: check_compliance_def Let_def)

lemma lastIndexOf_snoc: "lastIndexOf (xs @ [c]) [c] = int (length xs)"
  by (simp add: lastIndexOf_def occurs_at_def)

lemma enforce_limit_cut:
  assumes "length xs = 159" and "ys \<noteq> []"
  shows "enforce_limit ''sms'' (xs @ '' '' @ ys) = xs @ ''...''"
proof -
  have len: "length (xs @ '' '' @ ys) > 160" using assms by (cases ys) simp_all
  have t: "substring (xs @ '' '' @ ys) 0 160 = xs @ '' ''"
    using assms by (simp add: substring_def clamp_index_def)
  have l: "lastIndexOf (xs @ '' '') '' '' = 159"
    using lastIndexOf_snoc [of xs "CHR '' ''"] assms by simp
  have u: "substring (xs @ '' '') 0 (min (int (length (xs @ '' ''))) 159) = xs"
    using assms by (simp add: substring_def clamp_index_def)
  show ?thesis
    unfolding enforce_limit_def Let_def using len t l u by simp
qed

lemma enforce_limit_space_at_159:
  "enforce_limit ''sms'' (replicate 159 CHR ''a'' @ '' '' @ replicate 40 CHR ''b'')
     = replicate 159 CHR ''a'' @ ''...''"
  by (rule enforce_limit_cut) simp_all

text \<open>
  C2. An SMS completion of 200 characters whose 160th character is a space: the route
  cuts at that space and appends the three dots, so the stored text has 162
  characters, the stored \<open>characterCount\<close> is 162 and the route's own \<open>withinLimit\<close>
  probe is false. The cap of 160 is exceeded.
\<close>

theorem C2_sms_truncation_exceeds_cap:
  "\<exists>m cv st'.
     ai_message_route True new_storage ''sms'' ''offer''
       (CompletionJson (Some (replicate 159 CHR ''a'' @ '' '' @ replicate 40 CHR ''b'')))
       = (AiOk m cv, st') \<and>
     generatedMessage m = replicate 159 CHR ''a'' @ ''...'' \<and>
     characterCount m = 162 \<and> \<not> withinLimit cv \<and>
     getAiMessage st' (ai_message_id m) = Some m"
proof -
  let ?g = "replicate 159 CHR ''a'' @ '' '' @ replicate 40 CHR ''b''"
  obtain m cv st' where r:
    "ai_message_route True new_storage ''sms'' ''offer'' (CompletionJson (Some ?g)) = (AiOk m cv, st')"
    "generatedMessage m = enforce_limit ''sms'' (or_else (Some ?g) [])"
    "characterCount m = length (generatedMessage m)"
    "cv = check_compliance ''sms'' (generatedMessage m)"
    "getAiMessage st' (ai_message_id m) = Some m"
    using ai_message_route_fields [of new_storage "''sms''" "''offer''" "Some ?g"] by blast
  have g: "generatedMessage m = replicate 159 CHR ''a'' @ ''...''"
    using r(2) enforce_limit_space_at_159 by (simp add: or_else_def)
  have "characterCount m = 162" using r(3) g by simp
  moreover have "\<not> withinLimit cv" using r(4) g by (simp add: withinLimit_sms)
  ultimately show ?thesis using r(1) r(5) g by blast
qed


section \<open>Message generation: the compliance flag\<close>

lemma compliant_conj:
  "compliant (check_compliance mtype msg) =
     (hasOptOut (check_compliance mtype msg) \<and> hasBusinessName (check_compliance mtype msg) \<and>
      hasCTA (check_compliance mtype msg) \<and> withinLimit (check_compliance mtype msg) \<and>
      hasLocation (check_compliance mtype msg))"
  by (simp add: check_compliance_def Let_def)

lemma ai_message_route_ok:
  assumes "ai_message_route key st mtype idea reply = (AiOk m cv, st')"
  shows "cv = check_compliance mtype (generatedMessage m) \<and> isCompliant m = compliant cv
         \<and> getAiMessage st' (ai_message_id m) = Some m"
proof -
  from assms have k: "key" by (auto simp: ai_message_route_def split: if_splits)
  from assms k obtain content where r: "reply = CompletionJson content"
    by (cases reply) (auto simp: ai_message_route_def)
  show ?thesis using ai_message_route_fields [of st mtype idea content] assms k r by auto
qed

lemma compliance_hi:
  "check_compliance ''sms'' ''Hi'' =
     \<lparr>hasOptOut = False, hasBusinessName = False, hasCTA = False, withinLimit = True,
      hasLocation = False, compliant = False\<rparr>"
  by code_simp

lemma compliance_stop:
  "check_compliance ''sms'' ''stop'' =
     \<lparr>hasOptOut = True, hasBusinessName = False, hasCTA = False, withinLimit = True,
      hasLocation = False, compliant = False\<rparr>"
  by code_simp

lemma route_with_opt_out:
  "ai_message_route True new_storage ''sms'' ''sale''
     (CompletionJson (Some ''EliteIIT Bangalore: join, STOP''))
   = (AiOk \<lparr>ai_message_id = 0, messageType = ''sms'', promotionalIdea = ''sale'',
             generatedMessage = ''EliteIIT Bangalore: join, STOP'', characterCount = 30,
             wordCount = 4, isCompliant = True\<rparr>
        \<lparr>hasOptOut = True, hasBusinessName = True, hasCTA = True, withinLimit = True,
         hasLocation = True, compliant = True\<rparr>,
      \<lparr>contacts = [], campaigns = [], emailResults = [],
       aiMessages = [(0, \<lparr>ai_message_id = 0, messageType = ''sms'', promotionalIdea = ''sale'',
             generatedMessage = ''EliteIIT Bangalore: join, STOP'', characterCount = 30,
             wordCount = 4, isCompliant = True\<rparr>)],
       uuids_issued = 1\<rparr>)"
  by code_simp

lemma route_without_opt_out:
  "ai_message_route True new_storage ''sms'' ''sale''
     (CompletionJson (Some ''EliteIIT Bangalore: join''))
   = (AiOk \<lparr>ai_message_id = 0, messageType = ''sms'', promotionalIdea = ''sale'',
             generatedMessage = ''EliteIIT Bangalore: join'', characterCount = 24,
             wordCount = 3, isCompliant = False\<rparr>
        \<lparr>hasOptOut = False, hasBusinessName = True, hasCTA = True, withinLimit = True,
         hasLocation = True, compliant = False\<rparr>,
      \<lparr>contacts = [], campaigns = [], emailResults = [],
       aiMessages = [(0, \<lparr>ai_message_id = 0, messageType = ''sms'', promotionalIdea = ''sale'',
             generatedMessage = ''EliteIIT Bangalore: join'', characterCount = 24,
             wordCount = 3, isCompliant = False\<rparr>)],
       uuids_issued = 1\<rparr>)"
  by code_simp

text \<open>
  C8, as the claim states it, fails: the SMS texts \<open>Hi\<close> and \<open>stop\<close> differ in the
  opt-out probe alone, and the overall flag is false for both.
\<close>

theorem C8_counterexample:
  "hasOptOut (check_compliance ''sms'' ''stop'') \<noteq> hasOptOut (check_compliance ''sms'' ''Hi'')
   \<and> hasBusinessName (check_compliance ''sms'' ''stop'')
       = hasBusinessName (check_compliance ''sms'' ''Hi'')
   \<and> hasCTA (check_compliance ''sms'' ''stop'') = hasCTA (check_compliance ''sms'' ''Hi'')
   \<and> withinLimit (check_compliance ''sms'' ''stop'')
       = withinLimit (check_compliance ''sms'' ''Hi'')
   \<and> hasLocation (check_compliance ''sms'' ''stop'')
       = hasLocation (check_compliance ''sms'' ''Hi'')
   \<and> compliant (check_compliance ''sms'' ''stop'') = compliant (check_compliance ''sms'' ''Hi'')"
  by (simp add: compliance_hi compliance_stop)

text \<open>
  C8, amended. The stored flag \<open>isCompliant\<close> of a generated message is the conjunction
  of the five probes returned with it. For two generated messages whose probes differ in
  exactly one place, the stored flags differ exactly when the four probes they share
  are all true.
\<close>

theorem C8_compliance_conjunction:
  assumes "ai_message_route key st mtype idea reply = (AiOk m cv, st1)"
      and "ai_message_route key' st' mtype' idea' reply' = (AiOk m' cv', st1')"
  shows "getAiMessage st1 (ai_message_id m) = Some m
     \<and> isCompliant m
         = (hasOptOut cv \<and> hasBusinessName cv \<and> hasCTA cv \<and> withinLimit cv \<and> hasLocation cv)
     \<and> (hasOptOut cv' \<noteq> hasOptOut cv \<and> hasBusinessName cv' = hasBusinessName cv
          \<and> hasCTA cv' = hasCTA cv \<and> withinLimit cv' = withinLimit cv
          \<and> hasLocation cv' = hasLocation cv
        \<longrightarrow> (isCompliant m' \<noteq> isCompliant m)
              = (hasBusinessName cv \<and> hasCTA cv \<and> withinLimit cv \<and> hasLocation cv))
     \<and> (hasOptOut cv' = hasOptOut cv \<and> hasBusinessName cv' \<noteq> hasBusinessName cv
          \<and> hasCTA cv' = hasCTA cv \<and> withinLimit cv' = withinLimit cv
          \<and> hasLocation cv' = hasLocation cv
        \<longrightarrow> (isCompliant m' \<noteq> isCompliant m)
              = (hasOptOut cv \<and> hasCTA cv \<and> withinLimit cv \<and> hasLocation cv))
     \<and> (hasOptOut cv' = hasOptOut cv \<and> hasBusinessName cv' = hasBusinessName cv
          \<and> hasCTA cv' \<noteq> hasCTA cv \<and> withinLimit cv' = withinLimit cv
          \<and> hasLocation cv' = hasLocation cv
        \<longrightarrow> (isCompliant m' \<noteq> isCompliant m)
              = (hasOptOut cv \<and> hasBusinessName cv \<and> withinLimit cv \<and> hasLocation cv))
     \<and> (hasOptOut cv' = hasOptOut cv \<and> hasBusinessName cv' = hasBusinessName cv
          \<and> hasCTA cv' = hasCTA cv \<and> withinLimit cv' \<noteq> withinLimit cv
          \<and> hasLocation cv' = hasLocation cv
        \<longrightarrow> (isCompliant m' \<noteq> isCompliant m)
              = (hasOptOut cv \<and> hasBusinessName cv \<and> hasCTA cv \<and> hasLocation cv))
     \<and> (hasOptOut cv' = hasOptOut cv \<and> hasBusinessName cv' = hasBusinessName cv
          \<and> hasCTA cv' = hasCTA cv \<and> withinLimit cv' = withinLimit cv
          \<and> hasLocation cv' \<noteq> hasLocation cv
        \<longrightarrow> (isCompliant m' \<noteq> isCompliant m)
              = (hasOptOut cv \<and> hasBusinessName cv \<and> hasCTA cv \<and> withinLimit cv))"
proof -
  have a: "isCompliant m
      = (hasOptOut cv \<and> hasBusinessName cv \<and> hasCTA cv \<and> withinLimit cv \<and> hasLocation cv)"
    "getAiMessage st1 (ai_message_id m) = Some m"
    using ai_message_route_ok [OF assms(1)] compliant_conj by auto
  have b: "isCompliant m'
      = (hasOptOut cv' \<and> hasBusinessName cv' \<and> hasCTA cv' \<and> withinLimit cv' \<and> hasLocation cv')"
    using ai_message_route_ok [OF assms(2)] compliant_conj by auto
  show ?thesis unfolding a(1) b using a(2) by blast
qed

text \<open>An instance: an SMS text that passes all five probes and the same text without
  its opt-out word; the stored flags are true and false.\<close>

theorem C8_compliance_conjunction_witness:
  "ai_message_route True new_storage ''sms'' ''sale''
     (CompletionJson (Some ''EliteIIT Bangalore: join, STOP''))
   = (AiOk \<lparr>ai_message_id = 0, messageType = ''sms'', promotionalIdea = ''sale'',
             generatedMessage = ''EliteIIT Bangalore: join, STOP'', characterCount = 30,
             wordCount = 4, isCompliant = True\<rparr>
        \<lparr>hasOptOut = True, hasBusinessName = True, hasCTA = True, withinLimit = True,
         hasLocation = True, compliant = True\<rparr>,
      \<lparr>contacts = [], campaigns = [], emailResults = [],
       aiMessages = [(0, \<lparr>ai_message_id = 0, messageType = ''sms'', promotionalIdea = ''sale'',
             generatedMessage = ''EliteIIT Bangalore: join, STOP'', characterCount = 30,
             wordCount = 4, isCompliant = True\<rparr>)],
       uuids_issued = 1\<rparr>)
   \<and> ai_message_route True new_storage ''sms'' ''sale''
     (CompletionJson (Some ''EliteIIT Bangalore: join''))
   = (AiOk \<lparr>ai_message_id = 0, messageType = ''sms'', promotionalIdea = ''sale'',
             generatedMessage = ''EliteIIT Bangalore: join'', characterCount = 24,
             wordCount = 3, isCompliant = False\<rparr>
        \<lparr>hasOptOut = False, hasBusinessName = True, hasCTA = True, withinLimit = True,
         hasLocation = True, compliant = False\<rparr>,
      \<lparr>contacts = [], campaigns = [], emailResults = [],
       aiMessages = [(0, \<lparr>ai_message_id = 0, messageType = ''sms'', promotionalIdea = ''sale'',
             generatedMessage = ''EliteIIT Bangalore: join'', characterCount = 24,
             wordCount = 3, isCompliant = False\<rparr>)],
       uuids_issued = 1\<rparr>)
   \<and> (False \<noteq> True) = (True \<and> True \<and> True \<and> True)"
  using C8_compliance_conjunction [OF route_with_opt_out route_without_opt_out]
    route_with_opt_out route_without_opt_out
  by simp

section \<open>The image task tracker: polls of a finished task, repeated initialisation\<close>

lemma check_provider_status:
  "check_provider task (StatusJson d) = (resp, task') \<Longrightarrow>
     task_status task' =
       (if data_status d = Some ''COMPLETED''
        then (if data_generated d = [] then ''FAILED'' else ''COMPLETED'')
        else if data_status d = Some ''FAILED'' then ''FAILED''
        else or_else (data_status d) ''PROCESSING'')"
  by (auto simp: check_provider_def Let_def split: list.splits if_splits)

lemma check_provider_unchanged:
  "\<forall>d. reply \<noteq> StatusJson d \<Longrightarrow> snd (check_provider task reply) = task"
  by (cases reply) (auto simp: check_provider_def)

lemma or_else_nonterminal:
  "s \<noteq> Some ''COMPLETED'' \<Longrightarrow> s \<noteq> Some ''FAILED'' \<Longrightarrow> \<not> terminal (or_else s ''PROCESSING'')"
  by (auto simp: or_else_def terminal_def split: option.splits)

text \<open>
  C1, as the claim states it, fails: a task stored as \<open>COMPLETED\<close> with its provider
  handle is polled, the provider answers \<open>IN_PROGRESS\<close>, and the stored status becomes
  \<open>IN_PROGRESS\<close>.
\<close>

theorem C1_counterexample:
  "map_option task_status
     (fst (snd (image_status True True
        [''t1'' \<mapsto> \<lparr>originalPrompt = ''students'', enhancedPrompt = Some ''students at desks'',
                    freepikTaskId = Some ''fp1'', task_status = ''COMPLETED'',
                    imageUrl = Some ''https://img/1.jpg'', task_error = None\<rparr>]
        ''t1''
        \<lparr>on_enhance = PromptJson None, on_submit = SubmitJson None None [],
         on_status = StatusJson \<lparr>data_status = Some ''IN_PROGRESS'', data_generated = [],
            data_error_message = None, data_error = None, data_message = None,
            top_message = None\<rparr>\<rparr>)) ''t1'')
   = Some ''IN_PROGRESS'' \<and> terminal ''COMPLETED'' \<and> \<not> terminal ''IN_PROGRESS''"
  by (simp add: image_status_def check_provider_def or_else_def terminal_def Let_def)

text \<open>
  C1, amended. A poll of a task whose stored status is \<open>COMPLETED\<close> or \<open>FAILED\<close>:
  without a provider handle (the task failed while it was initialised) the poll calls
  no provider, leaves the cache as it is and returns the stored status, image and
  error; with a handle the poll asks the provider again. Then the stored task is
  unchanged when the request fails or is rate-limited, and otherwise its status is
  what the provider reports: it stays terminal exactly when the provider reports
  \<open>COMPLETED\<close> or \<open>FAILED\<close>.
\<close>

theorem C1_terminal_poll:
  assumes "cache taskId = Some task" and "terminal (task_status task)" and "taskId \<noteq> []"
  shows
    "((freepikTaskId task = None \<or> freepikTaskId task = Some []) \<longrightarrow>
        image_status True True cache taskId replies
          = (Current (task_status task) (imageUrl task) (task_error task) ''Processing...'',
             cache, []))
   \<and> (\<forall>h. freepikTaskId task = Some h \<and> h \<noteq> [] \<longrightarrow>
        (\<exists>resp task'.
            image_status True True cache taskId replies
              = (resp, cache(taskId \<mapsto> task'), [StatusCall h]) \<and>
            (case on_status replies of
               StatusJson d \<Rightarrow>
                 task_status task' =
                   (if data_status d = Some ''COMPLETED''
                    then (if data_generated d = [] then ''FAILED'' else ''COMPLETED'')
                    else if data_status d = Some ''FAILED'' then ''FAILED''
                    else or_else (data_status d) ''PROCESSING'') \<and>
                 terminal (task_status task') =
                   (data_status d = Some ''COMPLETED'' \<or> data_status d = Some ''FAILED'')
             | _ \<Rightarrow> task' = task)))"
proof -
  have nc: "task_status task \<noteq> ''CREATED''" "task_status task \<noteq> ''INITIALIZING''"
    using assms(2) by (auto simp: terminal_def)
  have same: "cache(taskId \<mapsto> task) = cache"
    using assms(1) by (simp add: map_upd_triv)
  have first: "image_status True True cache taskId replies
          = (Current (task_status task) (imageUrl task) (task_error task) ''Processing...'',
             cache, [])"
    if "freepikTaskId task = None \<or> freepikTaskId task = Some []"
    using that assms nc same by (auto simp: image_status_def)
  have second: "\<exists>resp task'.
            image_status True True cache taskId replies
              = (resp, cache(taskId \<mapsto> task'), [StatusCall h]) \<and>
            (case on_status replies of
               StatusJson d \<Rightarrow>
                 task_status task' =
                   (if data_status d = Some ''COMPLETED''
                    then (if data_generated d = [] then ''FAILED'' else ''COMPLETED'')
                    else if data_status d = Some ''FAILED'' then ''FAILED''
                    else or_else (data_status d) ''PROCESSING'') \<and>
                 terminal (task_status task') =
                   (data_status d = Some ''COMPLETED'' \<or> data_status d = Some ''FAILED'')
             | _ \<Rightarrow> task' = task)"
    if h: "freepikTaskId task = Some h \<and> h \<noteq> []" for h
  proof -
    obtain resp task' where cp: "check_provider task (on_status replies) = (resp, task')"
      by (cases "check_provider task (on_status replies)")
    have run: "image_status True True cache taskId replies
              = (resp, cache(taskId \<mapsto> task'), [StatusCall h])"
      using assms nc h cp by (simp add: image_status_def)
    have post: "(case on_status replies of
               StatusJson d \<Rightarrow>
                 task_status task' =
                   (if data_status d = Some ''COMPLETED''
                    then (if data_generated d = [] then ''FAILED'' else ''COMPLETED'')
                    else if data_status d = Some ''FAILED'' then ''FAILED''
                    else or_else (data_status d) ''PROCESSING'') \<and>
                 terminal (task_status task') =
                   (data_status d = Some ''COMPLETED'' \<or> data_status d = Some ''FAILED'')
             | _ \<Rightarrow> task' = task)"
    proof (cases "on_status replies")
      case (StatusJson d)
      have st: "task_status task' =
                   (if data_status d = Some ''COMPLETED''
                    then (if data_generated d = [] then ''FAILED'' else ''COMPLETED'')
                    else if data_status d = Some ''FAILED'' then ''FAILED''
                    else or_else (data_status d) ''PROCESSING'')"
        using cp StatusJson check_provider_status by simp
      have "terminal (task_status task') =
                   (data_status d = Some ''COMPLETED'' \<or> data_status d = Some ''FAILED'')"
        using st or_else_nonterminal [of "data_status d"] by (auto simp: terminal_def)
      then show ?thesis using StatusJson st by simp
    next
      case (StatusThrows e)
      then show ?thesis using cp check_provider_unchanged [of "on_status replies" task] by simp
    next
      case (StatusNotOk c r t)
      then show ?thesis using cp check_provider_unchanged [of "on_status replies" task] by simp
    qed
    show ?thesis using run post by blast
  qed
  show ?thesis using first second by blast
qed

theorem C1_terminal_poll_witness:
  "[''t1'' \<mapsto> \<lparr>originalPrompt = ''students'', enhancedPrompt = None,
                freepikTaskId = None, task_status = ''FAILED'',
                imageUrl = None, task_error = Some ''Prompt enhancement failed: 502 - bad gateway''\<rparr>]
     ''t1''
     = Some \<lparr>originalPrompt = ''students'', enhancedPrompt = None,
                freepikTaskId = None, task_status = ''FAILED'',
                imageUrl = None, task_error = Some ''Prompt enhancement failed: 502 - bad gateway''\<rparr>
   \<and> terminal ''FAILED'' \<and> ''t1'' \<noteq> []
   \<and> image_status True True
        [''t1'' \<mapsto> \<lparr>originalPrompt = ''students'', enhancedPrompt = None,
                freepikTaskId = None, task_status = ''FAILED'',
                imageUrl = None, task_error = Some ''Prompt enhancement failed: 502 - bad gateway''\<rparr>]
        ''t1''
        \<lparr>on_enhance = PromptJson None, on_submit = SubmitJson None None [],
         on_status = StatusThrows None\<rparr>
      = (Current ''FAILED'' None (Some ''Prompt enhancement failed: 502 - bad gateway'')
           ''Processing...'',
         [''t1'' \<mapsto> \<lparr>originalPrompt = ''students'', enhancedPrompt = None,
                freepikTaskId = None, task_status = ''FAILED'',
                imageUrl = None, task_error = Some ''Prompt enhancement failed: 502 - bad gateway''\<rparr>],
         [])"
  using C1_terminal_poll
    [of "[''t1'' \<mapsto> \<lparr>originalPrompt = ''students'', enhancedPrompt = None,
                freepikTaskId = None, task_status = ''FAILED'',
                imageUrl = None, task_error = Some ''Prompt enhancement failed: 502 - bad gateway''\<rparr>]"
        "''t1''"
        "\<lparr>originalPrompt = ''students'', enhancedPrompt = None,
                freepikTaskId = None, task_status = ''FAILED'',
                imageUrl = None, task_error = Some ''Prompt enhancement failed: 502 - bad gateway''\<rparr>"
        "\<lparr>on_enhance = PromptJson None, on_submit = SubmitJson None None [],
         on_status = StatusThrows None\<rparr>"]
  by (simp add: terminal_def)

text \<open>
  C4. A task is started and polled twice; the provider accepts the submission and
  answers both status requests with its own status \<open>CREATED\<close>. The first poll
  initialises the task and then stores the provider's raw status, \<open>CREATED\<close>; the
  second poll finds \<open>CREATED\<close> and runs the initialisation again: prompt enhancement
  and image submission are each called twice.
\<close>

theorem C4_provider_created_status_reinitializes:
  "poll_all True True
     (snd (start_image True True Map.empty ''t1'' ''students'')) ''t1''
     (replicate 2
        \<lparr>on_enhance = PromptJson (Some ''students at desks''),
         on_submit = SubmitJson (Some ''fp1'') (Some ''CREATED'') ''{}'',
         on_status = StatusJson \<lparr>data_status = Some ''CREATED'', data_generated = [],
            data_error_message = None, data_error = None, data_message = None,
            top_message = None\<rparr>\<rparr>)
   = ([Generating ''CREATED'' ''Image is being generated...'',
       Generating ''CREATED'' ''Image is being generated...''],
      [''t1'' \<mapsto> \<lparr>originalPrompt = ''students'', enhancedPrompt = Some ''students at desks'',
                  freepikTaskId = Some ''fp1'', task_status = ''CREATED'',
                  imageUrl = None, task_error = None\<rparr>],
      [EnhanceCall ''students'', SubmitCall ''students at desks'', StatusCall ''fp1'',
       EnhanceCall ''students'', SubmitCall ''students at desks'', StatusCall ''fp1''])"
  by (simp add: numeral_2_eq_2 start_image_def is_space_def image_status_def
      initialize_task_def check_provider_def or_else_def Let_def)

end
